theory Spec2Isabelle
  imports Main
begin

section \<open>The game state of class TicTacToe\<close>

text \<open>
  The engine is the class \<open>TicTacToe\<close>, which appears with the same text in
  \<^verbatim>\<open>tic-tac-toe.py\<close> and \<^verbatim>\<open>tic_tac_toe_gui.py\<close>.  Its cells hold one of the three
  one-character strings \<^verbatim>\<open>' '\<close>, \<^verbatim>\<open>'X'\<close> and \<^verbatim>\<open>'O'\<close>; \<open>current_player\<close> is
  \<^verbatim>\<open>'X'\<close> or \<^verbatim>\<open>'O'\<close>, and \<open>winner\<close> is \<^verbatim>\<open>None\<close>, \<^verbatim>\<open>'X'\<close> or \<^verbatim>\<open>'O'\<close>.
  The two marks are the constructors \<open>PX\<close> and \<open>PO\<close> of \<open>player\<close>; a cell is a \<open>player option\<close> in
  which \<open>None\<close> stands for the blank \<^verbatim>\<open>' '\<close>.  The board is the list of three
  row lists that \<^verbatim>\<open>__init__\<close> builds; every row is a list object of its own, so an
  assignment to one cell changes no other cell.
\<close>

datatype player = PX | PO

type_synonym cell = "player option"

type_synonym grid = "cell list list"

record game =
  board :: grid
  current_player :: player
  game_over :: bool
  winner :: "player option"
  moves_count :: int
  ai_enabled :: bool
  ai_difficulty :: string

text \<open>\<^verbatim>\<open>[[' ' for _ in range(3)] for _ in range(3)]\<close>\<close>

definition empty_board :: grid where
  "empty_board = replicate 3 (replicate 3 None)"

text \<open>\<^verbatim>\<open>__init__\<close> (the pygame rectangle of the GUI class is not part of the engine).\<close>

definition init :: game where
  "init = \<lparr>board = empty_board, current_player = PX, game_over = False, winner = None,
            moves_count = 0, ai_enabled = False, ai_difficulty = ''medium''\<rparr>"

definition reset_game :: "game \<Rightarrow> game" where
  "reset_game s = s\<lparr>board := empty_board, current_player := PX, game_over := False,
                     winner := None, moves_count := 0\<rparr>"

text \<open>
  The class keeps the board three rows of three cells: only \<^verbatim>\<open>__init__\<close> and
  \<^verbatim>\<open>reset_game\<close> assign \<open>self.board\<close>, and every other write replaces one cell.
  On such a board the constant indices \<open>0..2\<close> used by \<^verbatim>\<open>check_win\<close>,
  \<^verbatim>\<open>get_empty_cells\<close> and \<^verbatim>\<open>minimax\<close> are always in range.
\<close>

definition wf_board :: "grid \<Rightarrow> bool" where
  "wf_board b = (length b = 3 \<and> list_all (\<lambda>row. length row = 3) b)"

section \<open>Python list indexing\<close>

datatype error = IndexError

text \<open>
  \<^verbatim>\<open>xs[i]\<close> for a Python int \<open>i\<close>: a negative index counts from the end, and an
  index outside \<open>-len(xs) .. len(xs) - 1\<close> raises \<^verbatim>\<open>IndexError\<close> (here \<open>None\<close>).
  The result is the position that is read or written.
\<close>

definition py_index :: "'a list \<Rightarrow> int \<Rightarrow> nat option" where
  "py_index xs i =
     (let n = int (length xs)
      in if 0 \<le> i \<and> i < n then Some (nat i)
         else if - n \<le> i \<and> i < 0 then Some (nat (n + i))
         else None)"

section \<open>Win detection and move enumeration\<close>

text \<open>
  The body of \<^verbatim>\<open>check_win\<close> for a given \<open>player\<close>: some row counts three of the
  player's marks, or some column does, or one of the two diagonals is the player's.
\<close>

definition check_win_for :: "grid \<Rightarrow> player \<Rightarrow> bool" where
  "check_win_for b p =
     (list_ex (\<lambda>row. count_list row (Some p) = 3) b
      \<or> list_ex (\<lambda>col. count_list (map (\<lambda>row. b ! row ! col) [0..<3]) (Some p) = 3) [0..<3]
      \<or> (b ! 0 ! 0 = b ! 1 ! 1 \<and> b ! 1 ! 1 = b ! 2 ! 2 \<and> b ! 2 ! 2 = Some p)
      \<or> (b ! 0 ! 2 = b ! 1 ! 1 \<and> b ! 1 ! 1 = b ! 2 ! 0 \<and> b ! 2 ! 0 = Some p))"

text \<open>\<^verbatim>\<open>check_win\<close>: \<^verbatim>\<open>player = self.current_player\<close>.\<close>

definition check_win :: "game \<Rightarrow> bool" where
  "check_win s = check_win_for (board s) (current_player s)"

text \<open>
  \<^verbatim>\<open>get_empty_cells\<close>: the blank cells of \<open>self.board\<close> in row-major order, rows and
  columns \<open>0..2\<close>.
\<close>

definition empty_cells :: "grid \<Rightarrow> (nat \<times> nat) list" where
  "empty_cells b =
     concat (map (\<lambda>i. concat (map (\<lambda>j. if b ! i ! j = None then [(i, j)] else []) [0..<3]))
                 [0..<3])"

definition get_empty_cells :: "game \<Rightarrow> (nat \<times> nat) list" where
  "get_empty_cells s = empty_cells (board s)"

definition is_board_full :: "game \<Rightarrow> bool" where
  "is_board_full s = (moves_count s = 9)"

section \<open>Placing a mark\<close>

text \<open>The assignment \<^verbatim>\<open>self.board[row][col] = v\<close> at a position in range.\<close>

definition set_cell :: "grid \<Rightarrow> nat \<Rightarrow> nat \<Rightarrow> cell \<Rightarrow> grid" where
  "set_cell b row col v = b[row := (b ! row)[col := v]]"

text \<open>
  \<^verbatim>\<open>make_move\<close> returns the pair of what the call produced (the Boolean it returns,
  or the exception it raises) and the object's state afterwards.  The method checks
  nothing about \<open>row\<close> and \<open>col\<close>: they go straight into \<^verbatim>\<open>self.board[row][col]\<close>.
\<close>

definition other :: "player \<Rightarrow> player" where
  "other p = (if p = PX then PO else PX)"

definition make_move :: "game \<Rightarrow> int \<Rightarrow> int \<Rightarrow> (error + bool) \<times> game" where
  "make_move s row col =
     (if game_over s then (Inr False, s)
      else case py_index (board s) row of
        None \<Rightarrow> (Inl IndexError, s)
      | Some r \<Rightarrow>
         (case py_index (board s ! r) col of
            None \<Rightarrow> (Inl IndexError, s)
          | Some c \<Rightarrow>
             if board s ! r ! c \<noteq> None then (Inr False, s)
             else
               let s1 = s\<lparr>board := set_cell (board s) r c (Some (current_player s)),
                           moves_count := moves_count s + 1\<rparr>
               in if check_win s1
                  then (Inr True, s1\<lparr>game_over := True, winner := Some (current_player s1)\<rparr>)
                  else if moves_count s1 = 9
                  then (Inr True, s1\<lparr>game_over := True\<rparr>)
                  else (Inr True, s1\<lparr>current_player := other (current_player s1)\<rparr>)))"

section \<open>Minimax with alpha-beta pruning\<close>

text \<open>
  Scores are Python ints, and \<^verbatim>\<open>float('-inf')\<close> and \<^verbatim>\<open>float('inf')\<close> for the
  initial bounds; Python compares them as numbers.
\<close>

datatype score = NegInf | Fin int | PosInf

instantiation score :: linorder
begin

fun less_eq_score :: "score \<Rightarrow> score \<Rightarrow> bool" where
  "less_eq_score NegInf _ = True"
| "less_eq_score _ PosInf = True"
| "less_eq_score (Fin a) (Fin b) = (a \<le> b)"
| "less_eq_score _ _ = False"

definition less_score :: "score \<Rightarrow> score \<Rightarrow> bool" where
  "less_score a b = (a \<le> b \<and> \<not> b \<le> a)"

instance
proof
  fix x y z :: score
  show "(x < y) = (x \<le> y \<and> \<not> y \<le> x)" by (simp add: less_score_def)
  show "x \<le> x" by (cases x) simp_all
  show "x \<le> y \<Longrightarrow> y \<le> z \<Longrightarrow> x \<le> z" by (cases x; cases y; cases z) simp_all
  show "x \<le> y \<Longrightarrow> y \<le> x \<Longrightarrow> x = y" by (cases x; cases y) simp_all
  show "x \<le> y \<or> y \<le> x" by (cases x; cases y) auto
qed

end

text \<open>
  The dictionary \<^verbatim>\<open>minimax\<close> returns: \<open>Leaf sc\<close> is \<^verbatim>\<open>{'score': sc}\<close> and
  \<open>Best sc mv\<close> is \<^verbatim>\<open>{'score': sc, 'move': mv}\<close>, where \<open>mv\<close> may be \<^verbatim>\<open>None\<close>.
\<close>

datatype result = Leaf score | Best score "(nat \<times> nat) option"

fun score_of :: "result \<Rightarrow> score" where
  "score_of (Leaf sc) = sc"
| "score_of (Best sc mv) = sc"

text \<open>\<^verbatim>\<open>{'easy': 1, 'medium': 3, 'hard': 9}.get(self.ai_difficulty, 3)\<close>\<close>

definition max_depth :: "string \<Rightarrow> int" where
  "max_depth d =
     (if d = ''easy'' then 1 else if d = ''medium'' then 3 else if d = ''hard'' then 9 else 3)"

text \<open>
  \<^verbatim>\<open>minimax\<close> mutates the object and undoes its changes by hand, so the model
  threads the state: it returns the dictionary and the state the call leaves behind.
  The two \<^verbatim>\<open>for\<close> loops are \<open>max_loop\<close> and \<open>min_loop\<close>, over the list that
  \<^verbatim>\<open>get_empty_cells\<close> returned before the loop started; they carry the loop's
  variables \<open>best_score\<close>, \<open>best_move\<close>, \<open>alpha\<close> and \<open>beta\<close>, and a \<^verbatim>\<open>break\<close> ends
  the recursion.
\<close>

function minimax :: "game \<Rightarrow> int \<Rightarrow> bool \<Rightarrow> score \<Rightarrow> score \<Rightarrow> result \<times> game"
  and max_loop :: "game \<Rightarrow> int \<Rightarrow> (nat \<times> nat) list \<Rightarrow> score \<Rightarrow> (nat \<times> nat) option
                     \<Rightarrow> score \<Rightarrow> score \<Rightarrow> (score \<times> (nat \<times> nat) option) \<times> game"
  and min_loop :: "game \<Rightarrow> int \<Rightarrow> (nat \<times> nat) list \<Rightarrow> score \<Rightarrow> (nat \<times> nat) option
                     \<Rightarrow> score \<Rightarrow> score \<Rightarrow> (score \<times> (nat \<times> nat) option) \<times> game"
  where
  "minimax s depth is_maximizing alpha beta =
     (if winner s = Some PO then (Leaf (Fin (10 - depth)), s)
      else if winner s = Some PX then (Leaf (Fin (depth - 10)), s)
      else if is_board_full s then (Leaf (Fin 0), s)
      else if depth \<ge> max_depth (ai_difficulty s) then (Leaf (Fin 0), s)
      else if is_maximizing then
        (let player_before = current_player s;
             s1 = s\<lparr>current_player := PO\<rparr>;
             (best, s2) = max_loop s1 depth (get_empty_cells s1) NegInf None alpha beta
         in (Best (fst best) (snd best), s2\<lparr>current_player := player_before\<rparr>))
      else
        (let player_before = current_player s;
             s1 = s\<lparr>current_player := PX\<rparr>;
             (best, s2) = min_loop s1 depth (get_empty_cells s1) PosInf None alpha beta
         in (Best (fst best) (snd best), s2\<lparr>current_player := player_before\<rparr>)))"
| "max_loop s depth [] best_score best_move alpha beta = ((best_score, best_move), s)"
| "max_loop s depth (cell # cells) best_score best_move alpha beta =
     (let s1 = s\<lparr>board := set_cell (board s) (fst cell) (snd cell) (Some PO),
                 moves_count := moves_count s + 1\<rparr>;
          s2 = (if check_win s1 then s1\<lparr>winner := Some PO\<rparr> else s1);
          (result, s3) = minimax s2 (depth + 1) False alpha beta;
          sc = score_of result;
          s4 = s3\<lparr>board := set_cell (board s3) (fst cell) (snd cell) None,
                  moves_count := moves_count s3 - 1, winner := None\<rparr>;
          best_score' = (if sc > best_score then sc else best_score);
          best_move' = (if sc > best_score then Some cell else best_move);
          alpha' = max alpha best_score'
      in if beta \<le> alpha' then ((best_score', best_move'), s4)
         else max_loop s4 depth cells best_score' best_move' alpha' beta)"
| "min_loop s depth [] best_score best_move alpha beta = ((best_score, best_move), s)"
| "min_loop s depth (cell # cells) best_score best_move alpha beta =
     (let s1 = s\<lparr>board := set_cell (board s) (fst cell) (snd cell) (Some PX),
                 moves_count := moves_count s + 1\<rparr>;
          s2 = (if check_win s1 then s1\<lparr>winner := Some PX\<rparr> else s1);
          (result, s3) = minimax s2 (depth + 1) True alpha beta;
          sc = score_of result;
          s4 = s3\<lparr>board := set_cell (board s3) (fst cell) (snd cell) None,
                  moves_count := moves_count s3 - 1, winner := None\<rparr>;
          best_score' = (if sc < best_score then sc else best_score);
          best_move' = (if sc < best_score then Some cell else best_move);
          beta' = min beta best_score'
      in if beta' \<le> alpha then ((best_score', best_move'), s4)
         else min_loop s4 depth cells best_score' best_move' alpha beta')"
  by pat_completeness auto

text \<open>
  Every recursive call is one ply deeper and no call recurses at depth 9 or more, since
  \<open>max_depth\<close> is at most 9; inside a loop the list of cells gets shorter.
\<close>

termination minimax
  apply (relation "(\<lambda>x. case x of
            Inl (s, d, m, a, b) \<Rightarrow> if d \<ge> 9 then 0 else 2 * nat (9 - d) + 1
          | Inr (Inl (s, d, cells, _)) \<Rightarrow> (if d \<ge> 9 then 1 else 2 * nat (9 - d))
          | Inr (Inr (s, d, cells, _)) \<Rightarrow> (if d \<ge> 9 then 1 else 2 * nat (9 - d)))
        <*mlex*> measure (\<lambda>x. case x of
            Inl _ \<Rightarrow> 0
          | Inr (Inl (s, d, cells, _)) \<Rightarrow> length cells
          | Inr (Inr (s, d, cells, _)) \<Rightarrow> length cells)")
  apply (auto simp: max_depth_def wf_mlex mlex_prod_def split: if_splits)
  done

section \<open>The computer's move\<close>

text \<open>
  The methods \<^verbatim>\<open>ai_move_*\<close> return nothing; the model returns the exception that
  leaves the call, if any, and the state afterwards.  The value \<^verbatim>\<open>make_move\<close>
  returns is dropped, as in the source.
\<close>

definition dropped :: "(error + bool) \<times> game \<Rightarrow> error option \<times> game" where
  "dropped r = (case fst r of Inl e \<Rightarrow> Some e | Inr _ \<Rightarrow> None, snd r)"

text \<open>
  \<^verbatim>\<open>ai_move_easy\<close>: \<^verbatim>\<open>random.choice(empty_cells)\<close> returns the element at some
  position of the list; the position is the parameter \<open>pick\<close>, taken modulo
  the length.
\<close>

definition ai_move_easy :: "game \<Rightarrow> nat \<Rightarrow> error option \<times> game" where
  "ai_move_easy s pick =
     (let empty_cells = get_empty_cells s
      in if empty_cells \<noteq> [] then
           (let cell = empty_cells ! (pick mod length empty_cells)
            in dropped (make_move s (int (fst cell)) (int (snd cell))))
         else (None, s))"

text \<open>
  \<^verbatim>\<open>ai_move_hard\<close>: the test \<^verbatim>\<open>'move' in result and result['move']\<close> holds exactly
  when the dictionary has a move that is a pair (a non-empty tuple is true, \<^verbatim>\<open>None\<close>
  is false).
\<close>

definition ai_move_hard :: "game \<Rightarrow> error option \<times> game" where
  "ai_move_hard s =
     (let (result, s') = minimax s 0 True NegInf PosInf
      in case result of
           Best sc (Some cell) \<Rightarrow> dropped (make_move s' (int (fst cell)) (int (snd cell)))
         | _ \<Rightarrow> (None, s'))"

text \<open>
  \<^verbatim>\<open>ai_move_medium\<close>: \<open>coin\<close> is the outcome of the test
  \<^verbatim>\<open>random.random() < 0.7\<close>.
\<close>

definition ai_move_medium :: "game \<Rightarrow> bool \<Rightarrow> nat \<Rightarrow> error option \<times> game" where
  "ai_move_medium s coin pick = (if coin then ai_move_hard s else ai_move_easy s pick)"

text \<open>\<^verbatim>\<open>ai_move\<close> (the console version sleeps half a second first).\<close>

definition ai_move :: "game \<Rightarrow> bool \<Rightarrow> nat \<Rightarrow> error option \<times> game" where
  "ai_move s coin pick =
     (if ai_difficulty s = ''easy'' then ai_move_easy s pick
      else if ai_difficulty s = ''medium'' then ai_move_medium s coin pick
      else ai_move_hard s)"

section \<open>The two front ends' entry points\<close>

text \<open>
  Console, \<^verbatim>\<open>get_player_move\<close>.  What \<^verbatim>\<open>input\<close>, \<^verbatim>\<open>split\<close> and \<^verbatim>\<open>int\<close> make of the
  line typed is the value of \<open>user_input\<close>: \<open>Interrupt\<close> is a
  \<^verbatim>\<open>KeyboardInterrupt\<close>, \<open>Quit\<close> the line \<^verbatim>\<open>q\<close>, \<open>Malformed\<close> a line that does not
  split into two parts, \<open>NotNumbers\<close> a \<^verbatim>\<open>ValueError\<close> of \<^verbatim>\<open>int\<close>, and
  \<open>Numbers a b\<close> the two integers read.  The function returns whether the main loop
  goes on.
\<close>

datatype user_input = Interrupt | Quit | Malformed | NotNumbers | Numbers int int

fun get_player_move :: "game \<Rightarrow> user_input \<Rightarrow> (error + bool) \<times> game" where
  "get_player_move s Interrupt = (Inr False, s)"
| "get_player_move s Quit = (Inr False, s)"
| "get_player_move s Malformed = (Inr True, s)"
| "get_player_move s NotNumbers = (Inr True, s)"
| "get_player_move s (Numbers a b) =
     (let row = a - 1; col = b - 1
      in if \<not> (0 \<le> row \<and> row < 3 \<and> 0 \<le> col \<and> col < 3) then (Inr True, s)
         else case make_move s row col of
                (Inl e, s') \<Rightarrow> (Inl e, s')
              | (Inr ok, s') \<Rightarrow> (Inr True, s'))"

text \<open>
  GUI, \<^verbatim>\<open>handle_click\<close>.  \<^verbatim>\<open>board_rect\<close> is
  \<^verbatim>\<open>pygame.Rect((600 - 450) // 2, (700 - 450) // 2, 450, 450)\<close> and \<^verbatim>\<open>CELL_SIZE\<close> is
  \<^verbatim>\<open>450 // 3\<close>.  A rectangle is
  \<open>(x, y, width, height)\<close>, and pygame's \<^verbatim>\<open>collidepoint\<close> holds for the points
  from the left and top edges up to, and without, the right and bottom edges.
\<close>

definition collidepoint :: "int \<times> int \<times> int \<times> int \<Rightarrow> int \<times> int \<Rightarrow> bool" where
  "collidepoint rect pos =
     (case rect of (rx, ry, width, height) \<Rightarrow>
        rx \<le> fst pos \<and> fst pos < rx + width \<and> ry \<le> snd pos \<and> snd pos < ry + height)"

definition board_rect :: "int \<times> int \<times> int \<times> int" where
  "board_rect = ((600 - 450) div 2, (700 - 450) div 2, 450, 450)"

definition CELL_SIZE :: int where
  "CELL_SIZE = 450 div 3"

definition click_col :: "int \<times> int \<Rightarrow> int" where
  "click_col mouse_pos = (fst mouse_pos - fst board_rect) div CELL_SIZE"

definition click_row :: "int \<times> int \<Rightarrow> int" where
  "click_row mouse_pos = (snd mouse_pos - fst (snd board_rect)) div CELL_SIZE"

definition handle_click :: "game \<Rightarrow> int \<times> int \<Rightarrow> (error + bool) \<times> game" where
  "handle_click s mouse_pos =
     (if game_over s then (Inr False, s)
      else if \<not> collidepoint board_rect mouse_pos then (Inr False, s)
      else make_move s (click_row mouse_pos) (click_col mouse_pos))"

section \<open>Some positions\<close>

text \<open>X to move, with two in the top row: \<^verbatim>\<open>[[X,X,' '],[O,O,' '],[' ',' ',' ']]\<close>.\<close>

definition near_win :: game where
  "near_win = init\<lparr>board := [[Some PX, Some PX, None], [Some PO, Some PO, None],
                                [None, None, None]],
                    moves_count := 4\<rparr>"

text \<open>A finished game without a winner: \<^verbatim>\<open>X O X / X O O / O X X\<close>.\<close>

definition drawn_game :: game where
  "drawn_game = init\<lparr>board := [[Some PX, Some PO, Some PX], [Some PX, Some PO, Some PO],
                                  [Some PO, Some PX, Some PX]],
                      moves_count := 9, game_over := True\<rparr>"

text \<open>Two nodes of a search in which the last placement completed the top row.\<close>

definition node_won_O :: game where
  "node_won_O = init\<lparr>board := [[Some PO, Some PO, Some PO], [Some PX, Some PX, None],
                                  [Some PX, None, None]],
                      moves_count := 6, current_player := PO, winner := Some PO\<rparr>"

definition node_won_X :: game where
  "node_won_X = init\<lparr>board := [[Some PX, Some PX, Some PX], [Some PO, Some PO, None],
                                  [None, None, None]],
                      moves_count := 5, winner := Some PX\<rparr>"

text \<open>Two games: X wins with the top row, and a game that fills the board.\<close>

definition x_wins :: "(int \<times> int) list" where
  "x_wins = [(0, 0), (1, 0), (0, 1), (1, 1), (0, 2)]"

definition draw_moves :: "(int \<times> int) list" where
  "draw_moves = [(0, 0), (0, 1), (0, 2), (1, 1), (1, 0), (1, 2), (2, 1), (2, 0), (2, 2)]"

section \<open>The search as a function of what it reads\<close>

text \<open>
  \<^verbatim>\<open>minimax\<close> reads the difficulty, the board, the move count and the winner flag, and
  nothing else of the object.  \<open>ab\<close> is the same search on these four values, without
  the object: a placement is a new board, and nothing has to be undone.  Lemma
  \<open>minimax_ab\<close> below shows that \<^verbatim>\<open>minimax\<close> returns what \<open>ab\<close> computes, and the
  object as it found it.
\<close>

function ab :: "string \<Rightarrow> grid \<Rightarrow> int \<Rightarrow> player option \<Rightarrow> int \<Rightarrow> bool \<Rightarrow> score \<Rightarrow> score \<Rightarrow> result"
  and ab_max :: "string \<Rightarrow> grid \<Rightarrow> int \<Rightarrow> int \<Rightarrow> (nat \<times> nat) list \<Rightarrow> score
                   \<Rightarrow> (nat \<times> nat) option \<Rightarrow> score \<Rightarrow> score \<Rightarrow> score \<times> (nat \<times> nat) option"
  and ab_min :: "string \<Rightarrow> grid \<Rightarrow> int \<Rightarrow> int \<Rightarrow> (nat \<times> nat) list \<Rightarrow> score
                   \<Rightarrow> (nat \<times> nat) option \<Rightarrow> score \<Rightarrow> score \<Rightarrow> score \<times> (nat \<times> nat) option"
  where
  "ab diff b n w d is_max alpha beta =
     (if w = Some PO then Leaf (Fin (10 - d))
      else if w = Some PX then Leaf (Fin (d - 10))
      else if n = 9 then Leaf (Fin 0)
      else if d \<ge> max_depth diff then Leaf (Fin 0)
      else if is_max then
        (let best = ab_max diff b n d (empty_cells b) NegInf None alpha beta
         in Best (fst best) (snd best))
      else
        (let best = ab_min diff b n d (empty_cells b) PosInf None alpha beta
         in Best (fst best) (snd best)))"
| "ab_max diff b n d [] best bm alpha beta = (best, bm)"
| "ab_max diff b n d (cell # cells) best bm alpha beta =
     (let b1 = set_cell b (fst cell) (snd cell) (Some PO);
          w1 = (if check_win_for b1 PO then Some PO else None);
          sc = score_of (ab diff b1 (n + 1) w1 (d + 1) False alpha beta);
          best' = (if sc > best then sc else best);
          bm' = (if sc > best then Some cell else bm);
          alpha' = max alpha best'
      in if beta \<le> alpha' then (best', bm')
         else ab_max diff b n d cells best' bm' alpha' beta)"
| "ab_min diff b n d [] best bm alpha beta = (best, bm)"
| "ab_min diff b n d (cell # cells) best bm alpha beta =
     (let b1 = set_cell b (fst cell) (snd cell) (Some PX);
          w1 = (if check_win_for b1 PX then Some PX else None);
          sc = score_of (ab diff b1 (n + 1) w1 (d + 1) True alpha beta);
          best' = (if sc < best then sc else best);
          bm' = (if sc < best then Some cell else bm);
          beta' = min beta best'
      in if beta' \<le> alpha then (best', bm')
         else ab_min diff b n d cells best' bm' alpha beta')"
  by pat_completeness auto

termination ab
  apply (relation "(\<lambda>x. case x of
            Inl (diff, b, n, w, d, _) \<Rightarrow> if d \<ge> 9 then 0 else 2 * nat (9 - d) + 1
          | Inr (Inl (diff, b, n, d, cells, _)) \<Rightarrow> (if d \<ge> 9 then 1 else 2 * nat (9 - d))
          | Inr (Inr (diff, b, n, d, cells, _)) \<Rightarrow> (if d \<ge> 9 then 1 else 2 * nat (9 - d)))
        <*mlex*> measure (\<lambda>x. case x of
            Inl _ \<Rightarrow> 0
          | Inr (Inl (diff, b, n, d, cells, _)) \<Rightarrow> length cells
          | Inr (Inr (diff, b, n, d, cells, _)) \<Rightarrow> length cells)")
  apply (auto simp: max_depth_def wf_mlex mlex_prod_def split: if_splits)
  done

declare minimax.simps [simp del] max_loop.simps [simp del] min_loop.simps [simp del]

declare ab.simps [simp del] ab_max.simps [simp del] ab_min.simps [simp del]

section \<open>Games\<close>

text \<open>
  The states a program run can bring the object to: a fresh object, and from there any
  sequence of the front ends' settings of the two \<open>ai_\<close> fields, calls of
  \<^verbatim>\<open>make_move\<close> with any integers (whatever they return or raise), resets and
  computer moves at any tier with any random draws.
\<close>

inductive reachable :: "game \<Rightarrow> bool" where
  fresh: "reachable init"
| configure: "reachable s \<Longrightarrow> reachable (s\<lparr>ai_enabled := e, ai_difficulty := d\<rparr>)"
| place: "reachable s \<Longrightarrow> reachable (snd (make_move s row col))"
| reset: "reachable s \<Longrightarrow> reachable (reset_game s)"
| computer: "reachable s \<Longrightarrow> reachable (snd (ai_move s coin pick))"

text \<open>A sequence of calls of \<^verbatim>\<open>make_move\<close>, one after the other.\<close>

definition play :: "game \<Rightarrow> (int \<times> int) list \<Rightarrow> game" where
  "play s moves = foldl (\<lambda>s' (row, col). snd (make_move s' row col)) s moves"

text \<open>The number of cells of the grid that are not blank.\<close>

definition marks :: "grid \<Rightarrow> nat" where
  "marks b = length (filter (\<lambda>c. c \<noteq> None) (concat b))"

text \<open>
  The outcome, as \<^verbatim>\<open>print_board\<close> and \<^verbatim>\<open>draw\<close> report it: \<^verbatim>\<open>game_over\<close> with a
  winner is a win, \<^verbatim>\<open>game_over\<close> without one a draw.
\<close>

datatype outcome = InProgress | Won player | Drawn

definition outcome :: "game \<Rightarrow> outcome" where
  "outcome s =
     (if game_over s then (case winner s of Some p \<Rightarrow> Won p | None \<Rightarrow> Drawn) else InProgress)"

text \<open>What a successful \<^verbatim>\<open>make_move\<close> does to the state, at a position in range.\<close>

definition placed :: "game \<Rightarrow> nat \<Rightarrow> nat \<Rightarrow> game" where
  "placed s r c =
     (let s1 = s\<lparr>board := set_cell (board s) r c (Some (current_player s)),
                 moves_count := moves_count s + 1\<rparr>
      in if check_win s1 then s1\<lparr>game_over := True, winner := Some (current_player s1)\<rparr>
         else if moves_count s1 = 9 then s1\<lparr>game_over := True\<rparr>
         else s1\<lparr>current_player := other (current_player s1)\<rparr>)"

text \<open>The eight lines of the board, as lists of positions.\<close>

definition lines :: "(nat \<times> nat) list list" where
  "lines = [[(0, 0), (0, 1), (0, 2)], [(1, 0), (1, 1), (1, 2)], [(2, 0), (2, 1), (2, 2)],
            [(0, 0), (1, 0), (2, 0)], [(0, 1), (1, 1), (2, 1)], [(0, 2), (1, 2), (2, 2)],
            [(0, 0), (1, 1), (2, 2)], [(0, 2), (1, 1), (2, 0)]]"

text \<open>The two facts that every reachable state satisfies.\<close>

definition count_ok :: "game \<Rightarrow> bool" where
  "count_ok s = (wf_board (board s) \<and> moves_count s = int (marks (board s)))"

definition outcome_ok :: "game \<Rightarrow> bool" where
  "outcome_ok s =
     (if game_over s
      then (case winner s of
              Some p \<Rightarrow> check_win_for (board s) p
            | None \<Rightarrow> moves_count s = 9 \<and> \<not> check_win_for (board s) PX
                        \<and> \<not> check_win_for (board s) PO)
      else winner s = None \<and> \<not> check_win_for (board s) PX \<and> \<not> check_win_for (board s) PO)"

section \<open>Minimax without pruning\<close>

text \<open>
  The reference for the pruned search: the same nodes, the same leaf scores, the same
  depth limit and the same row-major order of the blank cells, but no bounds and no
  \<^verbatim>\<open>break\<close>.  A maximizing node takes the highest score of all its children, a
  minimizing node the lowest (\<^verbatim>\<open>float('-inf')\<close> and \<^verbatim>\<open>float('inf')\<close> when there is no
  child, as the source's initial \<open>best_score\<close>).
\<close>

function plain_minimax :: "string \<Rightarrow> grid \<Rightarrow> int \<Rightarrow> player option \<Rightarrow> int \<Rightarrow> bool \<Rightarrow> score"
  and plain_max :: "string \<Rightarrow> grid \<Rightarrow> int \<Rightarrow> int \<Rightarrow> (nat \<times> nat) list \<Rightarrow> score"
  and plain_min :: "string \<Rightarrow> grid \<Rightarrow> int \<Rightarrow> int \<Rightarrow> (nat \<times> nat) list \<Rightarrow> score"
  where
  "plain_minimax diff b n w d is_max =
     (if w = Some PO then Fin (10 - d)
      else if w = Some PX then Fin (d - 10)
      else if n = 9 then Fin 0
      else if d \<ge> max_depth diff then Fin 0
      else if is_max then plain_max diff b n d (empty_cells b)
      else plain_min diff b n d (empty_cells b))"
| "plain_max diff b n d [] = NegInf"
| "plain_max diff b n d (cell # cells) =
     (let b1 = set_cell b (fst cell) (snd cell) (Some PO);
          w1 = (if check_win_for b1 PO then Some PO else None)
      in max (plain_minimax diff b1 (n + 1) w1 (d + 1) False) (plain_max diff b n d cells))"
| "plain_min diff b n d [] = PosInf"
| "plain_min diff b n d (cell # cells) =
     (let b1 = set_cell b (fst cell) (snd cell) (Some PX);
          w1 = (if check_win_for b1 PX then Some PX else None)
      in min (plain_minimax diff b1 (n + 1) w1 (d + 1) True) (plain_min diff b n d cells))"
  by pat_completeness auto

termination plain_minimax
  apply (relation "(\<lambda>x. case x of
            Inl (diff, b, n, w, d, _) \<Rightarrow> if d \<ge> 9 then 0 else 2 * nat (9 - d) + 1
          | Inr (Inl (diff, b, n, d, cells)) \<Rightarrow> (if d \<ge> 9 then 1 else 2 * nat (9 - d))
          | Inr (Inr (diff, b, n, d, cells)) \<Rightarrow> (if d \<ge> 9 then 1 else 2 * nat (9 - d)))
        <*mlex*> measure (\<lambda>x. case x of
            Inl _ \<Rightarrow> 0
          | Inr (Inl (diff, b, n, d, cells)) \<Rightarrow> length cells
          | Inr (Inr (diff, b, n, d, cells)) \<Rightarrow> length cells)")
  apply (auto simp: max_depth_def wf_mlex mlex_prod_def split: if_splits)
  done

declare plain_minimax.simps [simp del]

text \<open>
  What a search with bounds \<open>a < b\<close> promises about its result \<open>r\<close> when the score
  without pruning is \<open>v\<close>: a result at or below \<open>a\<close> is an upper bound of \<open>v\<close>, a result
  at or above \<open>b\<close> a lower bound, and a result in between is \<open>v\<close>.
\<close>

definition fail_soft :: "score \<Rightarrow> score \<Rightarrow> score \<Rightarrow> score \<Rightarrow> bool" where
  "fail_soft a b v r = ((r \<le> a \<longrightarrow> v \<le> r) \<and> (b \<le> r \<longrightarrow> r \<le> v) \<and> (a < r \<and> r < b \<longrightarrow> r = v))"

text \<open>The unpruned score of the position after O has played \<open>cell\<close>.\<close>

definition o_child :: "string \<Rightarrow> grid \<Rightarrow> int \<Rightarrow> int \<Rightarrow> nat \<times> nat \<Rightarrow> score" where
  "o_child diff b n d cell =
     (let b1 = set_cell b (fst cell) (snd cell) (Some PO);
          w1 = (if check_win_for b1 PO then Some PO else None)
      in plain_minimax diff b1 (n + 1) w1 (d + 1) False)"

text \<open>
  What the maximizing loop promises about \<open>best_move\<close>: it is unchanged as long as
  \<open>best_score\<close> is, and otherwise it is a cell of the list whose unpruned score is at
  least the result, when the result is above \<open>alpha\<close>.
\<close>

definition move_ok :: "string \<Rightarrow> grid \<Rightarrow> int \<Rightarrow> int \<Rightarrow> (nat \<times> nat) list \<Rightarrow> score
    \<Rightarrow> (nat \<times> nat) option \<Rightarrow> score \<Rightarrow> score \<times> (nat \<times> nat) option \<Rightarrow> bool" where
  "move_ok diff b n d cells best bm alpha res =
     ((fst res = best \<and> snd res = bm)
      \<or> (best < fst res \<and>
          (\<exists>cell \<in> set cells. snd res = Some cell \<and>
             (alpha < fst res \<longrightarrow> fst res \<le> o_child diff b n d cell))))"

section \<open>A game against the Hard computer\<close>

text \<open>
  The main loop of \<^verbatim>\<open>play_game\<close> after the menu choice 4 (and the GUI's loop after
  its Hard button): the object is fresh with \<open>ai_enabled\<close> set and \<open>ai_difficulty\<close>
  \<^verbatim>\<open>"hard"\<close>; while the game is not over, the computer moves when it is O's turn, and
  otherwise the human moves.  A human move is any call of \<^verbatim>\<open>make_move\<close> that returns
  \<^verbatim>\<open>True\<close>; the calls that fail leave the state as it is.
\<close>

definition hard_start :: game where
  "hard_start = init\<lparr>ai_enabled := True, ai_difficulty := ''hard''\<rparr>"


inductive hard_game :: "game \<Rightarrow> bool" where
  start: "hard_game hard_start"
| human: "hard_game s \<Longrightarrow> current_player s = PX \<Longrightarrow> make_move s row col = (Inr True, s')
            \<Longrightarrow> hard_game s'"
| computer: "hard_game s \<Longrightarrow> \<not> game_over s \<Longrightarrow> current_player s = PO
            \<Longrightarrow> hard_game (snd (ai_move s coin pick))"


text \<open>
  \<open>osafe k b w is_max\<close>: with \<open>k\<close> cells left on board \<open>b\<close> and winner flag \<open>w\<close>, O
  can avoid losing, whatever X plays; \<open>is_max\<close> says that O is to move.
\<close>

fun osafe :: "nat \<Rightarrow> grid \<Rightarrow> player option \<Rightarrow> bool \<Rightarrow> bool" where
  "osafe 0 b w is_max = (w \<noteq> Some PX)"
| "osafe (Suc k) b w is_max =
     (if w = Some PO then True
      else if w = Some PX then False
      else if is_max then
        list_ex (\<lambda>cell. let b1 = set_cell b (fst cell) (snd cell) (Some PO)
                         in osafe k b1 (if check_win_for b1 PO then Some PO else None) False)
                (empty_cells b)
      else
        list_all (\<lambda>cell. let b1 = set_cell b (fst cell) (snd cell) (Some PX)
                          in osafe k b1 (if check_win_for b1 PX then Some PX else None) True)
                 (empty_cells b))"

text \<open>The unpruned score of the position after X has played \<open>cell\<close>.\<close>

definition x_child :: "string \<Rightarrow> grid \<Rightarrow> int \<Rightarrow> int \<Rightarrow> nat \<times> nat \<Rightarrow> score" where
  "x_child diff b n d cell =
     (let b1 = set_cell b (fst cell) (snd cell) (Some PX);
          w1 = (if check_win_for b1 PX then Some PX else None)
      in plain_minimax diff b1 (n + 1) w1 (d + 1) True)"

text \<open>
  A strategy for O, written out: \<open>Reply r c subs\<close> is O's move to row \<open>r\<close> and column
  \<open>c\<close>, and \<open>subs\<close> holds O's strategy after each of X's answers, one entry for every
  blank cell in row-major order; \<open>Done\<close> stands where X's answer fills the board.
  \<open>follows_O\<close> and \<open>follows_X\<close> check that the moves are legal, that X never completes
  a line, and that the strategy lasts until O has won or the board is full.
\<close>

datatype strategy = Done | Reply nat nat "strategy list"

fun follows_O :: "strategy \<Rightarrow> nat \<Rightarrow> grid \<Rightarrow> bool"
  and follows_X :: "strategy list \<Rightarrow> nat \<Rightarrow> grid \<Rightarrow> (nat \<times> nat) list \<Rightarrow> bool"
  where
  "follows_O Done k b = False"
| "follows_O (Reply r c subs) 0 b = False"
| "follows_O (Reply r c subs) (Suc k) b =
     (r < 3 \<and> c < 3 \<and> b ! r ! c = None \<and>
      (let b1 = set_cell b r c (Some PO)
       in check_win_for b1 PO \<or> k = 0 \<or> follows_X subs k b1 (empty_cells b1)))"
| "follows_X sts k b [] = True"
| "follows_X [] k b (cell # cells) = False"
| "follows_X (st # sts) 0 b (cell # cells) = False"
| "follows_X (st # sts) (Suc k) b (cell # cells) =
     ((let b1 = set_cell b (fst cell) (snd cell) (Some PX)
       in \<not> check_win_for b1 PX \<and> (k = 0 \<or> follows_O st k b1))
      \<and> follows_X sts (Suc k) b cells)"

text \<open>O's answers to every line of play of X from the empty board.\<close>

definition o_strategy :: "strategy list" where
  "o_strategy =
    [(Reply 1 1 [(Reply 0 2 [(Reply 2 0 []), (Reply 2 0 []), (Reply 1 0 [(Reply 2 1 [Done]),
     (Reply 1 2 []), (Reply 1 2 [])]), (Reply 2 0 []), (Reply 2 0 [])]), (Reply 0 1 [(Reply 2
     1 []), (Reply 2 1 []), (Reply 2 1 []), (Reply 1 0 [(Reply 2 2 [Done]), (Reply 1 2 []),
     (Reply 1 2 [])]), (Reply 2 1 [])]), (Reply 2 0 [(Reply 0 2 []), (Reply 0 1 [(Reply 2 1
     []), (Reply 1 2 [Done]), (Reply 2 1 [])]), (Reply 0 2 []), (Reply 0 2 []), (Reply 0 2
     [])]), (Reply 0 1 [(Reply 2 1 []), (Reply 2 1 []), (Reply 2 1 []), (Reply 2 0 [(Reply 2 2
     [Done]), (Reply 0 2 []), (Reply 0 2 [])]), (Reply 2 1 [])]), (Reply 1 0 [(Reply 1 2 []),
     (Reply 1 2 []), (Reply 0 1 [(Reply 2 1 []), (Reply 2 2 [Done]), (Reply 2 1 [])]), (Reply
     1 2 []), (Reply 1 2 [])]), (Reply 1 0 [(Reply 1 2 []), (Reply 1 2 []), (Reply 0 2 [(Reply
     2 0 []), (Reply 2 2 [Done]), (Reply 2 0 [])]), (Reply 1 2 []), (Reply 1 2 [])]), (Reply 0
     1 [(Reply 2 1 []), (Reply 2 1 []), (Reply 2 1 []), (Reply 2 1 []), (Reply 2 0 [(Reply 1 2
     [Done]), (Reply 0 2 []), (Reply 0 2 [])])])]), (Reply 1 1 [(Reply 0 2 [(Reply 2 0 []),
     (Reply 2 0 []), (Reply 1 0 [(Reply 2 1 [Done]), (Reply 1 2 []), (Reply 1 2 [])]), (Reply
     2 0 []), (Reply 2 0 [])]), (Reply 0 0 [(Reply 2 2 []), (Reply 2 2 []), (Reply 2 2 []),
     (Reply 2 2 []), (Reply 1 2 [(Reply 2 0 [Done]), (Reply 1 0 []), (Reply 1 0 [])])]),
     (Reply 0 0 [(Reply 2 2 []), (Reply 2 2 []), (Reply 2 2 []), (Reply 2 2 []), (Reply 0 2
     [(Reply 2 0 []), (Reply 2 1 [Done]), (Reply 2 0 [])])]), (Reply 0 0 [(Reply 2 2 []),
     (Reply 2 2 []), (Reply 2 2 []), (Reply 2 2 []), (Reply 0 2 [(Reply 2 0 []), (Reply 2 1
     [Done]), (Reply 2 0 [])])]), (Reply 1 0 [(Reply 1 2 []), (Reply 1 2 []), (Reply 2 2
     [(Reply 0 2 [Done]), (Reply 0 0 []), (Reply 0 0 [])]), (Reply 1 2 []), (Reply 1 2 [])]),
     (Reply 0 0 [(Reply 2 2 []), (Reply 2 2 []), (Reply 2 2 []), (Reply 2 2 []), (Reply 2 0
     [(Reply 1 0 []), (Reply 0 2 []), (Reply 0 2 [])])]), (Reply 1 0 [(Reply 1 2 []), (Reply 1
     2 []), (Reply 0 2 [(Reply 2 0 []), (Reply 2 1 [Done]), (Reply 2 0 [])]), (Reply 1 2 []),
     (Reply 1 2 [])])]), (Reply 1 1 [(Reply 0 1 [(Reply 2 1 []), (Reply 2 1 []), (Reply 2 1
     []), (Reply 1 0 [(Reply 2 2 [Done]), (Reply 1 2 []), (Reply 1 2 [])]), (Reply 2 1 [])]),
     (Reply 0 0 [(Reply 2 2 []), (Reply 2 2 []), (Reply 2 2 []), (Reply 2 2 []), (Reply 1 2
     [(Reply 2 0 [Done]), (Reply 1 0 []), (Reply 1 0 [])])]), (Reply 0 1 [(Reply 2 1 []),
     (Reply 2 1 []), (Reply 2 1 []), (Reply 2 2 [(Reply 2 0 [Done]), (Reply 0 0 []), (Reply 0
     0 [])]), (Reply 2 1 [])]), (Reply 2 2 [(Reply 0 1 [(Reply 2 1 []), (Reply 2 1 []), (Reply
     1 0 [Done])]), (Reply 0 0 []), (Reply 0 0 []), (Reply 0 0 []), (Reply 0 0 [])]), (Reply 0
     1 [(Reply 2 1 []), (Reply 2 1 []), (Reply 2 1 []), (Reply 2 2 [(Reply 1 0 [Done]), (Reply
     0 0 []), (Reply 0 0 [])]), (Reply 2 1 [])]), (Reply 1 0 [(Reply 1 2 []), (Reply 1 2 []),
     (Reply 2 2 [(Reply 0 1 [Done]), (Reply 0 0 []), (Reply 0 0 [])]), (Reply 1 2 []), (Reply
     1 2 [])]), (Reply 1 2 [(Reply 1 0 []), (Reply 1 0 []), (Reply 0 1 [(Reply 2 1 []), (Reply
     2 1 []), (Reply 2 0 [Done])]), (Reply 1 0 []), (Reply 1 0 [])])]), (Reply 1 1 [(Reply 2 0
     [(Reply 0 2 []), (Reply 0 1 [(Reply 2 1 []), (Reply 1 2 [Done]), (Reply 2 1 [])]), (Reply
     0 2 []), (Reply 0 2 []), (Reply 0 2 [])]), (Reply 0 0 [(Reply 2 2 []), (Reply 2 2 []),
     (Reply 2 2 []), (Reply 2 2 []), (Reply 0 2 [(Reply 2 0 []), (Reply 2 1 [Done]), (Reply 2
     0 [])])]), (Reply 0 1 [(Reply 2 1 []), (Reply 2 1 []), (Reply 2 1 []), (Reply 2 2 [(Reply
     2 0 [Done]), (Reply 0 0 []), (Reply 0 0 [])]), (Reply 2 1 [])]), (Reply 0 0 [(Reply 2 2
     []), (Reply 2 2 []), (Reply 2 2 []), (Reply 2 2 []), (Reply 0 2 [(Reply 2 0 []), (Reply 0
     1 []), (Reply 0 1 [])])]), (Reply 0 0 [(Reply 2 2 []), (Reply 2 2 []), (Reply 2 2 []),
     (Reply 2 2 []), (Reply 2 1 [(Reply 0 2 [Done]), (Reply 0 1 []), (Reply 0 1 [])])]),
     (Reply 0 0 [(Reply 2 2 []), (Reply 2 2 []), (Reply 2 2 []), (Reply 2 2 []), (Reply 2 0
     [(Reply 0 2 []), (Reply 1 2 [Done]), (Reply 0 2 [])])]), (Reply 0 1 [(Reply 2 1 []),
     (Reply 2 1 []), (Reply 2 1 []), (Reply 2 1 []), (Reply 2 0 [(Reply 0 2 []), (Reply 1 2
     [Done]), (Reply 0 2 [])])])]), (Reply 0 0 [(Reply 2 1 [(Reply 2 0 [(Reply 2 2 []), (Reply
     1 0 []), (Reply 1 0 [])]), (Reply 1 2 [(Reply 2 0 [Done]), (Reply 0 2 [Done]), (Reply 0 2
     [Done])]), (Reply 1 0 [(Reply 2 0 []), (Reply 0 2 [Done]), (Reply 2 0 [])]), (Reply 0 2
     [(Reply 1 2 [Done]), (Reply 1 0 [Done]), (Reply 1 0 [Done])]), (Reply 1 0 [(Reply 2 0
     []), (Reply 2 0 []), (Reply 0 2 [Done])])]), (Reply 2 0 [(Reply 1 0 []), (Reply 1 2
     [(Reply 2 1 [Done]), (Reply 0 1 [Done]), (Reply 0 1 [Done])]), (Reply 1 0 []), (Reply 1 0
     []), (Reply 1 0 [])]), (Reply 1 2 [(Reply 2 1 [(Reply 2 0 [Done]), (Reply 0 2 [Done]),
     (Reply 0 2 [Done])]), (Reply 2 0 [(Reply 2 1 [Done]), (Reply 0 1 [Done]), (Reply 0 1
     [Done])]), (Reply 0 2 [(Reply 2 2 []), (Reply 0 1 []), (Reply 0 1 [])]), (Reply 0 1
     [(Reply 2 0 [Done]), (Reply 0 2 []), (Reply 0 2 [])]), (Reply 0 1 [(Reply 2 0 [Done]),
     (Reply 0 2 []), (Reply 0 2 [])])]), (Reply 1 0 [(Reply 2 0 []), (Reply 2 0 []), (Reply 0
     2 [(Reply 2 1 [Done]), (Reply 0 1 []), (Reply 0 1 [])]), (Reply 2 0 []), (Reply 2 0
     [])]), (Reply 0 2 [(Reply 2 1 [(Reply 1 2 [Done]), (Reply 1 0 [Done]), (Reply 1 0
     [Done])]), (Reply 0 1 []), (Reply 0 1 []), (Reply 0 1 []), (Reply 0 1 [])]), (Reply 0 1
     [(Reply 2 0 [(Reply 1 2 [Done]), (Reply 1 0 []), (Reply 1 0 [])]), (Reply 0 2 []), (Reply
     0 2 []), (Reply 0 2 []), (Reply 0 2 [])]), (Reply 0 2 [(Reply 2 1 [(Reply 1 2 [Done]),
     (Reply 1 0 [Done]), (Reply 1 0 [Done])]), (Reply 0 1 []), (Reply 0 1 []), (Reply 0 1 []),
     (Reply 0 1 [])])]), (Reply 1 1 [(Reply 0 1 [(Reply 2 1 []), (Reply 2 1 []), (Reply 2 1
     []), (Reply 2 0 [(Reply 2 2 [Done]), (Reply 0 2 []), (Reply 0 2 [])]), (Reply 2 1 [])]),
     (Reply 0 0 [(Reply 2 2 []), (Reply 2 2 []), (Reply 2 2 []), (Reply 2 2 []), (Reply 0 2
     [(Reply 2 0 []), (Reply 2 1 [Done]), (Reply 2 0 [])])]), (Reply 2 2 [(Reply 0 1 [(Reply 2
     1 []), (Reply 2 1 []), (Reply 1 0 [Done])]), (Reply 0 0 []), (Reply 0 0 []), (Reply 0 0
     []), (Reply 0 0 [])]), (Reply 0 0 [(Reply 2 2 []), (Reply 2 2 []), (Reply 2 2 []), (Reply
     2 2 []), (Reply 0 2 [(Reply 2 0 []), (Reply 0 1 []), (Reply 0 1 [])])]), (Reply 0 1
     [(Reply 2 1 []), (Reply 2 1 []), (Reply 2 1 []), (Reply 2 2 [(Reply 1 0 [Done]), (Reply 0
     0 []), (Reply 0 0 [])]), (Reply 2 1 [])]), (Reply 0 2 [(Reply 2 0 []), (Reply 2 0 []),
     (Reply 2 0 []), (Reply 2 2 [(Reply 1 0 [Done]), (Reply 0 0 []), (Reply 0 0 [])]), (Reply
     2 0 [])]), (Reply 0 2 [(Reply 2 0 []), (Reply 2 0 []), (Reply 2 0 []), (Reply 2 1 [(Reply
     0 1 []), (Reply 0 0 [Done]), (Reply 0 1 [])]), (Reply 2 0 [])])]), (Reply 1 1 [(Reply 1 0
     [(Reply 1 2 []), (Reply 1 2 []), (Reply 0 1 [(Reply 2 1 []), (Reply 2 2 [Done]), (Reply 2
     1 [])]), (Reply 1 2 []), (Reply 1 2 [])]), (Reply 1 0 [(Reply 1 2 []), (Reply 1 2 []),
     (Reply 2 2 [(Reply 0 2 [Done]), (Reply 0 0 []), (Reply 0 0 [])]), (Reply 1 2 []), (Reply
     1 2 [])]), (Reply 0 1 [(Reply 2 1 []), (Reply 2 1 []), (Reply 2 1 []), (Reply 2 2 [(Reply
     1 0 [Done]), (Reply 0 0 []), (Reply 0 0 [])]), (Reply 2 1 [])]), (Reply 0 0 [(Reply 2 2
     []), (Reply 2 2 []), (Reply 2 2 []), (Reply 2 2 []), (Reply 2 1 [(Reply 0 2 [Done]),
     (Reply 0 1 []), (Reply 0 1 [])])]), (Reply 0 1 [(Reply 2 1 []), (Reply 2 1 []), (Reply 2
     1 []), (Reply 2 2 [(Reply 1 0 [Done]), (Reply 0 0 []), (Reply 0 0 [])]), (Reply 2 1
     [])]), (Reply 2 2 [(Reply 1 0 [(Reply 1 2 []), (Reply 1 2 []), (Reply 0 1 [Done])]),
     (Reply 0 0 []), (Reply 0 0 []), (Reply 0 0 []), (Reply 0 0 [])]), (Reply 2 1 [(Reply 0 1
     []), (Reply 1 0 [(Reply 1 2 []), (Reply 1 2 []), (Reply 0 2 [Done])]), (Reply 0 1 []),
     (Reply 0 1 []), (Reply 0 1 [])])]), (Reply 1 1 [(Reply 1 0 [(Reply 1 2 []), (Reply 1 2
     []), (Reply 0 2 [(Reply 2 0 []), (Reply 2 2 [Done]), (Reply 2 0 [])]), (Reply 1 2 []),
     (Reply 1 2 [])]), (Reply 0 0 [(Reply 2 2 []), (Reply 2 2 []), (Reply 2 2 []), (Reply 2 2
     []), (Reply 2 0 [(Reply 1 0 []), (Reply 0 2 []), (Reply 0 2 [])])]), (Reply 1 0 [(Reply 1
     2 []), (Reply 1 2 []), (Reply 2 2 [(Reply 0 1 [Done]), (Reply 0 0 []), (Reply 0 0 [])]),
     (Reply 1 2 []), (Reply 1 2 [])]), (Reply 0 0 [(Reply 2 2 []), (Reply 2 2 []), (Reply 2 2
     []), (Reply 2 2 []), (Reply 2 0 [(Reply 0 2 []), (Reply 1 2 [Done]), (Reply 0 2 [])])]),
     (Reply 0 2 [(Reply 2 0 []), (Reply 2 0 []), (Reply 2 0 []), (Reply 2 2 [(Reply 1 0
     [Done]), (Reply 0 0 []), (Reply 0 0 [])]), (Reply 2 0 [])]), (Reply 2 2 [(Reply 1 0
     [(Reply 1 2 []), (Reply 1 2 []), (Reply 0 1 [Done])]), (Reply 0 0 []), (Reply 0 0 []),
     (Reply 0 0 []), (Reply 0 0 [])]), (Reply 2 0 [(Reply 0 2 []), (Reply 0 2 []), (Reply 1 2
     [(Reply 1 0 []), (Reply 1 0 []), (Reply 0 0 [Done])]), (Reply 0 2 []), (Reply 0 2
     [])])]), (Reply 1 1 [(Reply 0 1 [(Reply 2 1 []), (Reply 2 1 []), (Reply 2 1 []), (Reply 2
     1 []), (Reply 2 0 [(Reply 1 2 [Done]), (Reply 0 2 []), (Reply 0 2 [])])]), (Reply 1 0
     [(Reply 1 2 []), (Reply 1 2 []), (Reply 0 2 [(Reply 2 0 []), (Reply 2 1 [Done]), (Reply 2
     0 [])]), (Reply 1 2 []), (Reply 1 2 [])]), (Reply 1 2 [(Reply 1 0 []), (Reply 1 0 []),
     (Reply 0 1 [(Reply 2 1 []), (Reply 2 1 []), (Reply 2 0 [Done])]), (Reply 1 0 []), (Reply
     1 0 [])]), (Reply 0 1 [(Reply 2 1 []), (Reply 2 1 []), (Reply 2 1 []), (Reply 2 1 []),
     (Reply 2 0 [(Reply 0 2 []), (Reply 1 2 [Done]), (Reply 0 2 [])])]), (Reply 0 2 [(Reply 2
     0 []), (Reply 2 0 []), (Reply 2 0 []), (Reply 2 1 [(Reply 0 1 []), (Reply 0 0 [Done]),
     (Reply 0 1 [])]), (Reply 2 0 [])]), (Reply 2 1 [(Reply 0 1 []), (Reply 1 0 [(Reply 1 2
     []), (Reply 1 2 []), (Reply 0 2 [Done])]), (Reply 0 1 []), (Reply 0 1 []), (Reply 0 1
     [])]), (Reply 2 0 [(Reply 0 2 []), (Reply 0 2 []), (Reply 1 2 [(Reply 1 0 []), (Reply 1 0
     []), (Reply 0 0 [Done])]), (Reply 0 2 []), (Reply 0 2 [])])])]"

text \<open>What holds in every state of a game against the Hard computer.\<close>

definition hard_ok :: "game \<Rightarrow> bool" where
  "hard_ok s =
     (wf_board (board s) \<and> ai_difficulty s = ''hard'' \<and> 0 \<le> moves_count s \<and>
      (if game_over s then winner s \<noteq> Some PX
       else winner s = None \<and> moves_count s < 9 \<and>
            osafe (nat (9 - moves_count s)) (board s) None (current_player s = PO)))"

section \<open>Boards of three rows of three cells\<close>

lemma empty_board_eq:
  "empty_board = [[None, None, None], [None, None, None], [None, None, None]]"
  by (simp add: empty_board_def numeral_3_eq_3)

lemma wf_board_init: "wf_board (board init)"
  by (simp add: init_def empty_board_eq wf_board_def)

lemma wf_board_3x3:
  "wf_board b \<Longrightarrow>
     \<exists>a0 a1 a2 b0 b1 b2 c0 c1 c2. b = [[a0, a1, a2], [b0, b1, b2], [c0, c1, c2]]"
  unfolding wf_board_def
  by (auto simp: length_Suc_conv numeral_3_eq_3)

lemma wf_board_lengths:
  "wf_board b \<Longrightarrow>
     length b = 3 \<and> length (b ! 0) = 3 \<and> length (b ! 1) = 3 \<and> length (b ! 2) = 3"
  by (auto dest: wf_board_3x3)

lemma lt3: "(n::nat) < 3 \<longleftrightarrow> n = 0 \<or> n = 1 \<or> n = 2"
  by auto

lemma upt3: "[0..<3] = [0, 1, 2]"
  by (simp add: upt_conv_Cons numeral_3_eq_3)

lemma py_index_3:
  "length xs = 3 \<Longrightarrow> py_index xs i =
     (if 0 \<le> i \<and> i < 3 then Some (nat i)
      else if - 3 \<le> i \<and> i < 0 then Some (nat (3 + i)) else None)"
  by (simp add: py_index_def)

section \<open>Coordinates out of range\<close>

lemma make_move_index_error:
  assumes "wf_board (board s)" and "row < - 3 \<or> 2 < row \<or> col < - 3 \<or> 2 < col"
  shows "make_move s row col = (if game_over s then Inr False else Inl IndexError, s)"
proof -
  from assms(1) have len: "length (board s) = 3" "\<And>r. r < 3 \<Longrightarrow> length (board s ! r) = 3"
    by (auto simp: lt3 dest: wf_board_lengths)
  show ?thesis
  proof (cases "py_index (board s) row")
    case None
    then show ?thesis by (simp add: make_move_def)
  next
    case (Some r)
    then have "r < 3" and "\<not> (row < - 3 \<or> 2 < row)"
      by (auto simp: py_index_3 len split: if_splits)
    with assms(2) len(2) have "py_index (board s ! r) col = None"
      by (auto simp: py_index_3)
    with Some show ?thesis by (simp add: make_move_def)
  qed
qed

text \<open>
  Claim C1, as stated: for every row or column outside \<open>0..2\<close> the move is rejected
  with the result false and the state unchanged.  \<^verbatim>\<open>make_move\<close>, which both front
  ends call, does not do this: on a fresh game the row \<open>-1\<close> is Python's last row, so
  the call returns \<^verbatim>\<open>True\<close> and puts an X into the bottom left cell.
\<close>

theorem make_move_unchecked_counterexample:
  "make_move init (- 1) 0 =
     (Inr True, init\<lparr>board := [[None, None, None], [None, None, None], [Some PX, None, None]],
                      moves_count := 1, current_player := PO\<rparr>)"
  by (simp add: make_move_def init_def empty_board_def py_index_def set_cell_def check_win_def
        check_win_for_def other_def numeral_3_eq_3)

text \<open>
  Claim C1, amended: the range check is the callers'.  For a row or column outside
  \<open>0..2\<close> the console's \<^verbatim>\<open>get_player_move\<close> leaves the state unchanged without
  calling \<^verbatim>\<open>make_move\<close> (and returns \<^verbatim>\<open>True\<close>, for the main loop to go on); the
  GUI's \<^verbatim>\<open>handle_click\<close> returns \<^verbatim>\<open>False\<close> with the state unchanged for a click whose
  row or column is outside \<open>0..2\<close>; and \<^verbatim>\<open>make_move\<close> itself, on a board of three by
  three, leaves the state unchanged for a row or column outside \<open>-3..2\<close>, raising
  \<^verbatim>\<open>IndexError\<close> unless the game is over, when it returns \<^verbatim>\<open>False\<close>.
\<close>

theorem out_of_range_rejected:
  "(\<not> (0 \<le> a - 1 \<and> a - 1 < 3 \<and> 0 \<le> b - 1 \<and> b - 1 < 3)
      \<longrightarrow> get_player_move s (Numbers a b) = (Inr True, s))
   \<and> (\<not> (0 \<le> click_row pos \<and> click_row pos < 3 \<and> 0 \<le> click_col pos \<and> click_col pos < 3)
      \<longrightarrow> handle_click s pos = (Inr False, s))
   \<and> (wf_board (board s) \<and> (row < - 3 \<or> 2 < row \<or> col < - 3 \<or> 2 < col)
      \<longrightarrow> make_move s row col = (if game_over s then Inr False else Inl IndexError, s))"
proof (intro conjI impI)
  assume "\<not> (0 \<le> a - 1 \<and> a - 1 < 3 \<and> 0 \<le> b - 1 \<and> b - 1 < 3)"
  then show "get_player_move s (Numbers a b) = (Inr True, s)"
    by (simp add: Let_def)
next
  assume out: "\<not> (0 \<le> click_row pos \<and> click_row pos < 3
                    \<and> 0 \<le> click_col pos \<and> click_col pos < 3)"
  have "collidepoint board_rect pos \<longleftrightarrow>
          0 \<le> click_row pos \<and> click_row pos < 3 \<and> 0 \<le> click_col pos \<and> click_col pos < 3"
    by (auto simp: collidepoint_def board_rect_def click_row_def click_col_def CELL_SIZE_def)
  with out show "handle_click s pos = (Inr False, s)"
    by (simp add: handle_click_def)
next
  assume "wf_board (board s) \<and> (row < - 3 \<or> 2 < row \<or> col < - 3 \<or> 2 < col)"
  then show "make_move s row col = (if game_over s then Inr False else Inl IndexError, s)"
    using make_move_index_error by blast
qed

theorem out_of_range_rejected_witness:
  "get_player_move init (Numbers 4 1) = (Inr True, init)
   \<and> handle_click init (0, 0) = (Inr False, init)
   \<and> make_move init 3 0 = (Inl IndexError, init)"
proof -
  have "\<not> game_over init" by (simp add: init_def)
  then show ?thesis
    using wf_board_init
      out_of_range_rejected [where a = 4 and b = 1 and pos = "(0, 0)" and s = init
        and row = 3 and col = 0]
    by (simp add: click_row_def click_col_def board_rect_def CELL_SIZE_def)
qed

section \<open>Placements\<close>

text \<open>
  Claim C4, as stated: after every successful placement the turn marker has toggled,
  also when the placement ends the game.  In \<open>near_win\<close> X plays the top right cell
  and wins; \<^verbatim>\<open>make_move\<close> returns \<^verbatim>\<open>True\<close> and the turn marker is still X.
\<close>

theorem winning_move_keeps_turn_counterexample:
  "fst (make_move near_win 0 2) = Inr True
   \<and> winner (snd (make_move near_win 0 2)) = Some PX
   \<and> current_player near_win = PX
   \<and> current_player (snd (make_move near_win 0 2)) = PX"
  by (simp add: make_move_def near_win_def init_def py_index_def set_cell_def check_win_def
        check_win_for_def)

text \<open>
  Claim C4, amended: after a successful placement the turn marker has toggled to the
  other mark when the game goes on, and is unchanged when the placement ends the game
  (a win or a full board).
\<close>

theorem make_move_turn:
  assumes "make_move s row col = (Inr True, s')"
  shows "current_player s' = (if game_over s' then current_player s else other (current_player s))"
  using assms
  by (auto simp: make_move_def Let_def split: if_splits option.splits)

theorem make_move_turn_witness:
  "current_player (snd (make_move init 0 0)) = PO
   \<and> current_player (snd (make_move near_win 0 2)) = PX"
proof -
  have a: "make_move init 0 0 = (Inr True, snd (make_move init 0 0))"
    and b: "\<not> game_over (snd (make_move init 0 0))"
    by (simp_all add: make_move_def init_def empty_board_eq py_index_def set_cell_def
          check_win_def check_win_for_def other_def upt3)
  have c: "make_move near_win 0 2 = (Inr True, snd (make_move near_win 0 2))"
    and d: "game_over (snd (make_move near_win 0 2))"
    by (simp_all add: make_move_def near_win_def init_def py_index_def set_cell_def
          check_win_def check_win_for_def upt3)
  show ?thesis
    using make_move_turn [OF a] make_move_turn [OF c] b d
    by (simp add: init_def near_win_def other_def)
qed

text \<open>
  Claim C5: when the game is over, or when the cell at a row and column in \<open>0..2\<close> is
  occupied, \<^verbatim>\<open>make_move\<close> returns \<^verbatim>\<open>False\<close> and the state (grid, move count, turn
  marker, winner and game-over flag) is the one before the call.
\<close>

theorem make_move_rejects:
  assumes "game_over s \<or> (wf_board (board s) \<and> 0 \<le> row \<and> row < 3 \<and> 0 \<le> col \<and> col < 3
             \<and> board s ! nat row ! nat col \<noteq> None)"
  shows "make_move s row col = (Inr False, s)"
proof (cases "game_over s")
  case True
  then show ?thesis by (simp add: make_move_def)
next
  case False
  with assms have wf: "wf_board (board s)" and rng: "0 \<le> row" "row < 3" "0 \<le> col" "col < 3"
    and occ: "board s ! nat row ! nat col \<noteq> None" by auto
  from rng have "nat row < 3" by simp
  with wf have "length (board s) = 3" "length (board s ! nat row) = 3"
    by (auto simp: lt3 dest: wf_board_lengths)
  with rng occ show ?thesis
    by (simp add: make_move_def py_index_3)
qed

theorem make_move_rejects_witness:
  "make_move drawn_game 1 1 = (Inr False, drawn_game)
   \<and> make_move near_win 0 1 = (Inr False, near_win)"
  using make_move_rejects [of drawn_game 1 1] make_move_rejects [of near_win 0 1]
  by (simp add: drawn_game_def near_win_def init_def wf_board_def)

section \<open>Scores at the leaves of the search\<close>

text \<open>
  Claim C8: at a node of \<^verbatim>\<open>minimax\<close>, tested in this order: when O, the side the search
  maximizes, has won, the score is \<open>10 - depth\<close>; when X has won it is \<open>depth - 10\<close>;
  on a full board without a winner it is 0; and otherwise, at a depth that has reached
  the tier's maximum (easy 1, medium 3, hard 9), it is 0.  In each case the call
  returns at once: the dictionary has no move and the state is untouched.
\<close>

theorem minimax_terminal_scores:
  "(winner s = Some PO \<longrightarrow> minimax s d m a b = (Leaf (Fin (10 - d)), s))
   \<and> (winner s = Some PX \<longrightarrow> minimax s d m a b = (Leaf (Fin (d - 10)), s))
   \<and> (winner s = None \<and> is_board_full s \<longrightarrow> minimax s d m a b = (Leaf (Fin 0), s))
   \<and> (winner s = None \<and> \<not> is_board_full s \<and> max_depth (ai_difficulty s) \<le> d
        \<longrightarrow> minimax s d m a b = (Leaf (Fin 0), s))
   \<and> max_depth ''easy'' = 1 \<and> max_depth ''medium'' = 3 \<and> max_depth ''hard'' = 9"
  by (simp add: minimax.simps [of s] max_depth_def)

theorem minimax_terminal_scores_witness:
  "minimax node_won_O 3 False NegInf PosInf = (Leaf (Fin 7), node_won_O)
   \<and> minimax node_won_X 2 True NegInf PosInf = (Leaf (Fin (- 8)), node_won_X)
   \<and> minimax drawn_game 5 True NegInf PosInf = (Leaf (Fin 0), drawn_game)
   \<and> minimax near_win 3 True NegInf PosInf = (Leaf (Fin 0), near_win)"
  using minimax_terminal_scores [of node_won_O 3 False NegInf PosInf]
    minimax_terminal_scores [of node_won_X 2 True NegInf PosInf]
    minimax_terminal_scores [of drawn_game 5 True NegInf PosInf]
    minimax_terminal_scores [of near_win 3 True NegInf PosInf]
  by (simp add: node_won_O_def node_won_X_def drawn_game_def near_win_def init_def
        is_board_full_def max_depth_def)

section \<open>The search leaves the object as it found it\<close>

lemma set_cell_undo: "b ! r ! c = None \<Longrightarrow> set_cell (set_cell b r c v) r c None = b"
proof -
  assume "b ! r ! c = None"
  then have "(b ! r)[c := None] = b ! r" by (metis list_update_id)
  then show ?thesis
  proof (cases "r < length b")
    case True
    with \<open>(b ! r)[c := None] = b ! r\<close> show ?thesis by (simp add: set_cell_def)
  next
    case False
    then show ?thesis by (simp add: set_cell_def list_update_beyond)
  qed
qed

lemma empty_cells_blank: "cell \<in> set (empty_cells b) \<Longrightarrow> b ! fst cell ! snd cell = None"
  by (auto simp: empty_cells_def split: if_splits)

lemma winner_cases: "w \<noteq> Some PO \<Longrightarrow> w \<noteq> Some PX \<Longrightarrow> w = None"
  by (metis option.exhaust player.exhaust)


lemma minimax_ab:
  "minimax s d m alpha beta =
     (ab (ai_difficulty s) (board s) (moves_count s) (winner s) d m alpha beta, s)"
  and "winner s = None \<Longrightarrow> current_player s = PO \<Longrightarrow> \<forall>cell \<in> set cells. board s ! fst cell ! snd cell = None \<Longrightarrow>
     max_loop s d cells best bm alpha beta =
     (ab_max (ai_difficulty s) (board s) (moves_count s) d cells best bm alpha beta, s)"
  and "winner s = None \<Longrightarrow> current_player s = PX \<Longrightarrow> \<forall>cell \<in> set cells. board s ! fst cell ! snd cell = None \<Longrightarrow>
     min_loop s d cells best bm alpha beta =
     (ab_min (ai_difficulty s) (board s) (moves_count s) d cells best bm alpha beta, s)"
proof (induction s d m alpha beta and s d cells best bm alpha beta and s d cells best bm alpha beta
       rule: minimax_max_loop_min_loop.induct)
  case (1 s depth is_maximizing alpha beta)
  show ?case
  proof (cases "winner s = Some PO \<or> winner s = Some PX \<or> is_board_full s
                 \<or> max_depth (ai_difficulty s) \<le> depth")
    case True
    then show ?thesis
      by (auto simp: minimax.simps [of s] ab.simps [of "ai_difficulty s"] is_board_full_def)
  next
    case False
    then have w: "winner s = None" using winner_cases by blast
    show ?thesis
    proof (cases is_maximizing)
      case True
      have "max_loop (s\<lparr>current_player := PO\<rparr>) depth (get_empty_cells (s\<lparr>current_player := PO\<rparr>))
              NegInf None alpha beta =
            (ab_max (ai_difficulty s) (board s) (moves_count s) depth (empty_cells (board s))
               NegInf None alpha beta, s\<lparr>current_player := PO\<rparr>)"
        using "1.IH"(1) [OF _ _ _ _ True refl refl] False w
        by (simp add: get_empty_cells_def empty_cells_blank)
      with False True show ?thesis
        by (simp add: minimax.simps [of s] ab.simps [of "ai_difficulty s"] is_board_full_def
              get_empty_cells_def Let_def)
    next
      case m: False
      have "min_loop (s\<lparr>current_player := PX\<rparr>) depth (get_empty_cells (s\<lparr>current_player := PX\<rparr>))
              PosInf None alpha beta =
            (ab_min (ai_difficulty s) (board s) (moves_count s) depth (empty_cells (board s))
               PosInf None alpha beta, s\<lparr>current_player := PX\<rparr>)"
        using "1.IH"(2) [OF _ _ _ _ m refl refl] False w
        by (simp add: get_empty_cells_def empty_cells_blank)
      with False m show ?thesis
        by (simp add: minimax.simps [of s] ab.simps [of "ai_difficulty s"] is_board_full_def
              get_empty_cells_def Let_def)
    qed
  qed
next
  case (2 s depth best_score best_move alpha beta)
  then show ?case by (simp add: max_loop.simps ab_max.simps)
next
  case (3 s depth cell cells best_score best_move alpha beta)
  define s1 where "s1 = s\<lparr>board := set_cell (board s) (fst cell) (snd cell) (Some PO),
                             moves_count := moves_count s + 1\<rparr>"
  define s2 where "s2 = (if check_win s1 then s1\<lparr>winner := Some PO\<rparr> else s1)"
  define b1 where "b1 = set_cell (board s) (fst cell) (snd cell) (Some PO)"
  define r where "r = ab (ai_difficulty s) b1 (moves_count s + 1)
                        (if check_win_for b1 PO then Some PO else None) (depth + 1) False alpha beta"
  define best' where "best' = (if best_score < score_of r then score_of r else best_score)"
  define bm' where "bm' = (if best_score < score_of r then Some cell else best_move)"
  define s4 where "s4 = s2\<lparr>board := set_cell (board s2) (fst cell) (snd cell) None,
                             moves_count := moves_count s2 - 1, winner := None\<rparr>"
  have child: "minimax s2 (depth + 1) False alpha beta = (r, s2)"
    using "3.IH"(1) [OF s1_def s2_def] "3.prems"
    by (simp add: s2_def s1_def check_win_def r_def b1_def)
  have undo: "s4 = s"
    using "3.prems" by (simp add: s4_def s2_def s1_def set_cell_undo)
  have "max_loop s depth (cell # cells) best_score best_move alpha beta =
          (case minimax s2 (depth + 1) False alpha beta of (result, s3) \<Rightarrow>
             let sc = score_of result;
                 s4 = s3\<lparr>board := set_cell (board s3) (fst cell) (snd cell) None,
                         moves_count := moves_count s3 - 1, winner := None\<rparr>;
                 best_score' = (if sc > best_score then sc else best_score);
                 best_move' = (if sc > best_score then Some cell else best_move);
                 alpha' = max alpha best_score'
             in if beta \<le> alpha' then ((best_score', best_move'), s4)
                else max_loop s4 depth cells best_score' best_move' alpha' beta)"
    unfolding s2_def s1_def by (subst max_loop.simps) (simp only: Let_def)
  also have "\<dots> = (if beta \<le> max alpha best' then ((best', bm'), s4)
                     else max_loop s4 depth cells best' bm' (max alpha best') beta)"
    by (simp only: child prod.case Let_def best'_def bm'_def s4_def)
  finally have lhs: "max_loop s depth (cell # cells) best_score best_move alpha beta =
      (if beta \<le> max alpha best' then ((best', bm'), s)
       else max_loop s depth cells best' bm' (max alpha best') beta)"
    by (simp only: undo)
  have rhs: "ab_max (ai_difficulty s) (board s) (moves_count s) depth (cell # cells)
               best_score best_move alpha beta =
      (if beta \<le> max alpha best' then (best', bm')
       else ab_max (ai_difficulty s) (board s) (moves_count s) depth cells best' bm'
              (max alpha best') beta)"
    by (subst ab_max.simps) (simp only: Let_def best'_def bm'_def r_def b1_def)
  show ?case
  proof (cases "beta \<le> max alpha best'")
    case True
    then show ?thesis by (simp only: lhs rhs if_True)
  next
    case False
    have "max_loop s4 depth cells best' bm' (max alpha best') beta =
            (ab_max (ai_difficulty s4) (board s4) (moves_count s4) depth cells best' bm'
               (max alpha best') beta, s4)"
      using "3.IH"(2) [OF s1_def s2_def refl child [symmetric] refl s4_def best'_def bm'_def refl False]
        "3.prems" undo
      by simp
    with False show ?thesis by (simp only: lhs rhs if_False undo)
  qed
next
  case (4 s depth best_score best_move alpha beta)
  then show ?case by (simp add: min_loop.simps ab_min.simps)
next
  case (5 s depth cell cells best_score best_move alpha beta)
  define s1 where "s1 = s\<lparr>board := set_cell (board s) (fst cell) (snd cell) (Some PX),
                             moves_count := moves_count s + 1\<rparr>"
  define s2 where "s2 = (if check_win s1 then s1\<lparr>winner := Some PX\<rparr> else s1)"
  define b1 where "b1 = set_cell (board s) (fst cell) (snd cell) (Some PX)"
  define r where "r = ab (ai_difficulty s) b1 (moves_count s + 1)
                        (if check_win_for b1 PX then Some PX else None) (depth + 1) True alpha beta"
  define best' where "best' = (if score_of r < best_score then score_of r else best_score)"
  define bm' where "bm' = (if score_of r < best_score then Some cell else best_move)"
  define s4 where "s4 = s2\<lparr>board := set_cell (board s2) (fst cell) (snd cell) None,
                             moves_count := moves_count s2 - 1, winner := None\<rparr>"
  have child: "minimax s2 (depth + 1) True alpha beta = (r, s2)"
    using "5.IH"(1) [OF s1_def s2_def] "5.prems"
    by (simp add: s2_def s1_def check_win_def r_def b1_def)
  have undo: "s4 = s"
    using "5.prems" by (simp add: s4_def s2_def s1_def set_cell_undo)
  have "min_loop s depth (cell # cells) best_score best_move alpha beta =
          (case minimax s2 (depth + 1) True alpha beta of (result, s3) \<Rightarrow>
             let sc = score_of result;
                 s4 = s3\<lparr>board := set_cell (board s3) (fst cell) (snd cell) None,
                         moves_count := moves_count s3 - 1, winner := None\<rparr>;
                 best_score' = (if sc < best_score then sc else best_score);
                 best_move' = (if sc < best_score then Some cell else best_move);
                 beta' = min beta best_score'
             in if beta' \<le> alpha then ((best_score', best_move'), s4)
                else min_loop s4 depth cells best_score' best_move' alpha beta')"
    unfolding s2_def s1_def by (subst min_loop.simps) (simp only: Let_def)
  also have "\<dots> = (if min beta best' \<le> alpha then ((best', bm'), s4)
                     else min_loop s4 depth cells best' bm' alpha (min beta best'))"
    by (simp only: child prod.case Let_def best'_def bm'_def s4_def)
  finally have lhs: "min_loop s depth (cell # cells) best_score best_move alpha beta =
      (if min beta best' \<le> alpha then ((best', bm'), s)
       else min_loop s depth cells best' bm' alpha (min beta best'))"
    by (simp only: undo)
  have rhs: "ab_min (ai_difficulty s) (board s) (moves_count s) depth (cell # cells)
               best_score best_move alpha beta =
      (if min beta best' \<le> alpha then (best', bm')
       else ab_min (ai_difficulty s) (board s) (moves_count s) depth cells best' bm'
              alpha (min beta best'))"
    by (subst ab_min.simps) (simp only: Let_def best'_def bm'_def r_def b1_def)
  show ?case
  proof (cases "min beta best' \<le> alpha")
    case True
    then show ?thesis by (simp only: lhs rhs if_True)
  next
    case False
    have "min_loop s4 depth cells best' bm' alpha (min beta best') =
            (ab_min (ai_difficulty s4) (board s4) (moves_count s4) depth cells best' bm'
               alpha (min beta best'), s4)"
      using "5.IH"(2) [OF s1_def s2_def refl child [symmetric] refl s4_def best'_def bm'_def refl False]
        "5.prems" undo
      by simp
    with False show ?thesis by (simp only: lhs rhs if_False undo)
  qed
qed

text \<open>
  Claim C2: for every state, depth, side to move and bounds, the state that a call of
  \<^verbatim>\<open>minimax\<close> leaves behind is the state it started from: the grid, the move count,
  the turn marker, the winner flag and the game-over flag (and the two settings) are
  as before.  The depth limit is the state's \<open>ai_difficulty\<close>, which is arbitrary
  here.
\<close>

theorem minimax_restores_state:
  "snd (minimax s depth is_maximizing alpha beta) = s"
  by (simp add: minimax_ab(1))

section \<open>A computer move on a full board\<close>

lemma ab_no_cells:
  "empty_cells b = [] \<Longrightarrow> ab diff b n w d m alpha beta \<in> range Leaf \<union> {Best NegInf None, Best PosInf None}"
  by (simp add: ab.simps [of diff b] ab_max.simps ab_min.simps)

text \<open>
  Claim C10: on a board of three by three without a blank cell, a computer move at any
  tier, whatever the random draws, raises nothing and leaves the state as it was: no
  cell changes and no move is made.
\<close>

theorem ai_move_full_board:
  assumes "wf_board (board s)" and "get_empty_cells s = []"
  shows "ai_move s coin pick = (None, s)"
proof -
  have easy: "ai_move_easy s pick = (None, s)"
    using assms(2) by (simp add: ai_move_easy_def)
  have "fst (minimax s 0 True NegInf PosInf) \<in> range Leaf \<union> {Best NegInf None, Best PosInf None}"
    using assms(2) ab_no_cells [of "board s"] by (simp add: minimax_ab(1) get_empty_cells_def)
  then have hard: "ai_move_hard s = (None, s)"
    by (auto simp: ai_move_hard_def minimax_ab(1))
  show ?thesis
    by (simp add: ai_move_def ai_move_medium_def easy hard)
qed

theorem ai_move_full_board_witness:
  "ai_move drawn_game True 0 = (None, drawn_game)
   \<and> ai_move (drawn_game\<lparr>ai_difficulty := ''easy''\<rparr>) True 0 = (None, drawn_game\<lparr>ai_difficulty := ''easy''\<rparr>)
   \<and> ai_move (drawn_game\<lparr>ai_difficulty := ''hard''\<rparr>) True 0 = (None, drawn_game\<lparr>ai_difficulty := ''hard''\<rparr>)"
  using ai_move_full_board [of drawn_game True 0]
    ai_move_full_board [of "drawn_game\<lparr>ai_difficulty := ''easy''\<rparr>" True 0]
    ai_move_full_board [of "drawn_game\<lparr>ai_difficulty := ''hard''\<rparr>" True 0]
  by (simp add: drawn_game_def init_def wf_board_def get_empty_cells_def empty_cells_def upt3)

section \<open>The move count and the outcome in reachable states\<close>

lemma py_index_lt: "py_index xs i = Some k \<Longrightarrow> k < length xs"
  by (auto simp: py_index_def Let_def split: if_splits)

lemma wf_board_set_cell: "wf_board b \<Longrightarrow> wf_board (set_cell b r c v)"
  unfolding wf_board_def set_cell_def
  by (cases "r < length b") (auto simp: list_all_length nth_list_update list_update_beyond)

lemma filter_update_count:
  "c < length xs \<Longrightarrow> \<not> P (xs ! c) \<Longrightarrow> P v \<Longrightarrow>
     length (filter P (xs[c := v])) = Suc (length (filter P xs))"
  by (induction xs arbitrary: c) (auto split: nat.splits)

lemma marks_set_cell:
  "r < length b \<Longrightarrow> c < length (b ! r) \<Longrightarrow> b ! r ! c = None \<Longrightarrow>
     marks (set_cell b r c (Some p)) = Suc (marks b)"
proof (induction b arbitrary: r)
  case Nil
  then show ?case by simp
next
  case (Cons row b)
  show ?case
  proof (cases r)
    case 0
    with Cons.prems show ?thesis
      by (simp add: marks_def set_cell_def filter_update_count)
  next
    case (Suc r')
    with Cons.prems Cons.IH [of r'] show ?thesis
      by (simp add: marks_def set_cell_def)
  qed
qed

lemma make_move_placed:
  "\<not> game_over s \<Longrightarrow> py_index (board s) row = Some r \<Longrightarrow>
   py_index (board s ! r) col = Some c \<Longrightarrow> board s ! r ! c = None \<Longrightarrow>
   make_move s row col = (Inr True, placed s r c)"
  by (simp add: make_move_def placed_def Let_def)

lemma make_move_cases:
  obtains (unchanged) "fst (make_move s row col) \<noteq> Inr True" "snd (make_move s row col) = s"
  | (placed) r c where "\<not> game_over s" "py_index (board s) row = Some r"
      "py_index (board s ! r) col = Some c" "board s ! r ! c = None"
      "make_move s row col = (Inr True, placed s r c)"
proof (cases "game_over s")
  case True
  then show ?thesis using unchanged by (simp add: make_move_def)
next
  case False
  show ?thesis
  proof (cases "py_index (board s) row")
    case None
    with False show ?thesis using unchanged by (simp add: make_move_def)
  next
    case r: (Some r)
    show ?thesis
    proof (cases "py_index (board s ! r) col")
      case None
      with False r show ?thesis using unchanged by (simp add: make_move_def)
    next
      case c: (Some c)
      show ?thesis
      proof (cases "board s ! r ! c = None")
        case True
        with False r c show ?thesis using placed make_move_placed by blast
      next
        case occupied: False
        with False r c show ?thesis using unchanged by (simp add: make_move_def)
      qed
    qed
  qed
qed

lemma board_placed: "board (placed s r c) = set_cell (board s) r c (Some (current_player s))"
  by (simp add: placed_def Let_def)

lemma moves_count_placed: "moves_count (placed s r c) = moves_count s + 1"
  by (simp add: placed_def Let_def)

lemma count_ok_make_move:
  assumes "count_ok s"
  shows "count_ok (snd (make_move s row col))"
proof (cases rule: make_move_cases [of s row col])
  case unchanged
  with assms show ?thesis by simp
next
  case (placed r c)
  from placed(2,3) have "r < length (board s)" "c < length (board s ! r)"
    by (auto dest: py_index_lt)
  with placed(4,5) assms show ?thesis
    by (simp add: count_ok_def board_placed moves_count_placed wf_board_set_cell marks_set_cell)
qed

lemma count_ok_init: "count_ok init"
  by (simp add: count_ok_def init_def empty_board_eq wf_board_def marks_def)

lemma count_ok_reset: "count_ok (reset_game s)"
  by (simp add: count_ok_def reset_game_def empty_board_eq wf_board_def marks_def)

lemma count_ok_dropped: "count_ok (snd r) \<Longrightarrow> count_ok (snd (dropped r))"
  by (simp add: dropped_def)

lemma count_ok_ai_move: "count_ok s \<Longrightarrow> count_ok (snd (ai_move s coin pick))"
  by (auto simp: ai_move_def ai_move_medium_def ai_move_easy_def ai_move_hard_def Let_def
        minimax_ab(1) count_ok_dropped count_ok_make_move split: result.splits option.splits)

lemma reachable_count_ok: "reachable s \<Longrightarrow> count_ok s"
proof (induction rule: reachable.induct)
  case fresh
  show ?case by (rule count_ok_init)
next
  case (configure s e d)
  then show ?case by (simp add: count_ok_def)
next
  case (place s row col)
  then show ?case by (simp add: count_ok_make_move)
next
  case (reset s)
  show ?case by (rule count_ok_reset)
next
  case (computer s coin pick)
  then show ?case by (simp add: count_ok_ai_move)
qed

text \<open>
  Claim C6: in every state reachable from a fresh object by settings, calls of
  \<^verbatim>\<open>make_move\<close>, resets and computer moves, the move count is the number of cells
  that are not blank.
\<close>

theorem reachable_move_count:
  "reachable s \<Longrightarrow> moves_count s = int (marks (board s))"
  using reachable_count_ok by (simp add: count_ok_def)

lemma reachable_play: "reachable s \<Longrightarrow> reachable (play s moves)"
  unfolding play_def
  by (induction moves arbitrary: s) (auto intro: reachable.place)

lemma play_Cons: "play s ((row, col) # moves) = play (snd (make_move s row col)) moves"
  by (simp add: play_def)

lemma play_Nil: "play s [] = s"
  by (simp add: play_def)

lemma make_move_init_center:
  "make_move init 1 1 =
     (Inr True, init\<lparr>board := [[None, None, None], [None, Some PX, None], [None, None, None]],
                      moves_count := 1, current_player := PO\<rparr>)"
  by (simp add: make_move_def init_def empty_board_eq py_index_def set_cell_def check_win_def
        check_win_for_def other_def upt3)

theorem reachable_move_count_witness:
  "reachable (play init [(1, 1)]) \<and> moves_count (play init [(1, 1)]) = 1
   \<and> marks (board (play init [(1, 1)])) = 1"
  using reachable_move_count [OF reachable_play [OF reachable.fresh, of "[(1, 1)]"]]
    reachable_play [OF reachable.fresh, of "[(1, 1)]"]
  by (simp add: play_Cons play_Nil make_move_init_center marks_def)

lemma count_list_3: "count_list [x, y, z] v = 3 \<longleftrightarrow> x = v \<and> y = v \<and> z = v"
  by auto

lemma check_win_3x3:
  "check_win_for [[a0, a1, a2], [b0, b1, b2], [c0, c1, c2]] p \<longleftrightarrow>
     (a0 = Some p \<and> a1 = Some p \<and> a2 = Some p)
   \<or> (b0 = Some p \<and> b1 = Some p \<and> b2 = Some p)
   \<or> (c0 = Some p \<and> c1 = Some p \<and> c2 = Some p)
   \<or> (a0 = Some p \<and> b0 = Some p \<and> c0 = Some p)
   \<or> (a1 = Some p \<and> b1 = Some p \<and> c1 = Some p)
   \<or> (a2 = Some p \<and> b2 = Some p \<and> c2 = Some p)
   \<or> (a0 = Some p \<and> b1 = Some p \<and> c2 = Some p)
   \<or> (a2 = Some p \<and> b1 = Some p \<and> c0 = Some p)"
proof -
  let ?b = "[[a0, a1, a2], [b0, b1, b2], [c0, c1, c2]]"
  have rows: "list_ex (\<lambda>row. count_list row (Some p) = 3) ?b \<longleftrightarrow>
      (a0 = Some p \<and> a1 = Some p \<and> a2 = Some p)
    \<or> (b0 = Some p \<and> b1 = Some p \<and> b2 = Some p)
    \<or> (c0 = Some p \<and> c1 = Some p \<and> c2 = Some p)"
    by (simp add: count_list_3 del: count_list.simps)
  have cols: "list_ex (\<lambda>col. count_list (map (\<lambda>row. ?b ! row ! col) [0, 1, 2]) (Some p) = 3)
                [0, 1, 2] \<longleftrightarrow>
      (a0 = Some p \<and> b0 = Some p \<and> c0 = Some p)
    \<or> (a1 = Some p \<and> b1 = Some p \<and> c1 = Some p)
    \<or> (a2 = Some p \<and> b2 = Some p \<and> c2 = Some p)"
    by (simp add: count_list_3 del: count_list.simps)
  have d1: "(?b ! 0 ! 0 = ?b ! 1 ! 1 \<and> ?b ! 1 ! 1 = ?b ! 2 ! 2 \<and> ?b ! 2 ! 2 = Some p) \<longleftrightarrow>
      (a0 = Some p \<and> b1 = Some p \<and> c2 = Some p)"
    by auto
  have d2: "(?b ! 0 ! 2 = ?b ! 1 ! 1 \<and> ?b ! 1 ! 1 = ?b ! 2 ! 0 \<and> ?b ! 2 ! 0 = Some p) \<longleftrightarrow>
      (a2 = Some p \<and> b1 = Some p \<and> c0 = Some p)"
    by auto
  show ?thesis
    unfolding check_win_for_def upt3 rows cols d1 d2 by (simp only: disj_assoc)
qed

lemma check_win_lines:
  assumes "wf_board b"
  shows "check_win_for b q \<longleftrightarrow> list_ex (list_all (\<lambda>(i, j). b ! i ! j = Some q)) lines"
proof -
  from assms obtain a0 a1 a2 b0 b1 b2 c0 c1 c2
    where b: "b = [[a0, a1, a2], [b0, b1, b2], [c0, c1, c2]]"
    using wf_board_3x3 by blast
  show ?thesis
    unfolding b check_win_3x3 by (simp add: lines_def)
qed

lemma nth_set_cell:
  "r < length b \<Longrightarrow> c < length (b ! r) \<Longrightarrow>
     set_cell b r c v ! i ! j = (if i = r \<and> j = c then v else b ! i ! j)"
  by (auto simp: set_cell_def nth_list_update)

lemma win_other:
  assumes "wf_board b" "r < 3" "c < 3" "q \<noteq> p" "check_win_for (set_cell b r c (Some p)) q"
  shows "check_win_for b q"
proof -
  from assms(1,2,3) have len: "r < length b" "c < length (b ! r)"
    by (auto simp: wf_board_def list_all_length)
  from assms(5) obtain l where l: "l \<in> set lines"
    and all: "\<forall>(i, j) \<in> set l. set_cell b r c (Some p) ! i ! j = Some q"
    using check_win_lines [OF wf_board_set_cell [OF assms(1)]]
    by (auto simp: list_ex_iff list_all_iff)
  have "\<forall>(i, j) \<in> set l. b ! i ! j = Some q"
    using all assms(4) by (auto simp: nth_set_cell [OF len] split: if_splits)
  with l show ?thesis
    using check_win_lines [OF assms(1)] by (auto simp: list_ex_iff list_all_iff)
qed

lemma row_full: "length (filter (\<lambda>c. c \<noteq> None) [x, y, z]) = 3 \<longleftrightarrow> x \<noteq> None \<and> y \<noteq> None \<and> z \<noteq> None"
  by auto

lemma marks_full:
  assumes "wf_board b" "marks b = 9"
  shows "empty_cells b = []"
proof -
  from assms(1) obtain a0 a1 a2 b0 b1 b2 c0 c1 c2
    where b: "b = [[a0, a1, a2], [b0, b1, b2], [c0, c1, c2]]"
    using wf_board_3x3 by blast
  have le: "\<And>x y z :: cell. length (filter (\<lambda>c. c \<noteq> None) [x, y, z]) \<le> 3"
    by simp
  have "marks b = length (filter (\<lambda>c. c \<noteq> None) [a0, a1, a2])
            + length (filter (\<lambda>c. c \<noteq> None) [b0, b1, b2])
            + length (filter (\<lambda>c. c \<noteq> None) [c0, c1, c2])"
    by (simp add: marks_def b)
  with assms(2) le [of a0 a1 a2] le [of b0 b1 b2] le [of c0 c1 c2]
  have "length (filter (\<lambda>c. c \<noteq> None) [a0, a1, a2]) = 3"
       "length (filter (\<lambda>c. c \<noteq> None) [b0, b1, b2]) = 3"
       "length (filter (\<lambda>c. c \<noteq> None) [c0, c1, c2]) = 3"
    by linarith+
  then have "a0 \<noteq> None \<and> a1 \<noteq> None \<and> a2 \<noteq> None" "b0 \<noteq> None \<and> b1 \<noteq> None \<and> b2 \<noteq> None"
       "c0 \<noteq> None \<and> c1 \<noteq> None \<and> c2 \<noteq> None"
    unfolding row_full by simp_all
  then show ?thesis
    by (simp add: empty_cells_def b upt3)
qed

lemma outcome_ok_placed:
  assumes "count_ok s" "outcome_ok s" "\<not> game_over s" "r < 3" "c < 3"
  shows "outcome_ok (placed s r c)"
proof -
  let ?p = "current_player s"
  let ?b = "set_cell (board s) r c (Some ?p)"
  from assms(2,3) have old: "winner s = None" "\<not> check_win_for (board s) PX"
      "\<not> check_win_for (board s) PO"
    by (simp_all add: outcome_ok_def)
  have wf: "wf_board (board s)" using assms(1) by (simp add: count_ok_def)
  have oth: "\<not> check_win_for ?b (other ?p)"
    using win_other [OF wf assms(4,5), of "other ?p" ?p] old
    by (cases ?p) (auto simp: other_def)
  show ?thesis
  proof (cases "check_win_for ?b ?p")
    case True
    then show ?thesis
      by (simp add: outcome_ok_def placed_def Let_def check_win_def)
  next
    case False
    with oth have "\<not> check_win_for ?b PX" "\<not> check_win_for ?b PO"
      by (cases ?p; simp add: other_def)+
    with False old assms(3) show ?thesis
      by (simp add: outcome_ok_def placed_def Let_def check_win_def)
  qed
qed

lemma outcome_ok_make_move:
  assumes "count_ok s" "outcome_ok s"
  shows "outcome_ok (snd (make_move s row col))"
proof (cases rule: make_move_cases [of s row col])
  case unchanged
  with assms show ?thesis by simp
next
  case (placed r c)
  from assms(1) have "length (board s) = 3" "\<And>r. r < 3 \<Longrightarrow> length (board s ! r) = 3"
    by (auto simp: count_ok_def lt3 dest: wf_board_lengths)
  with placed(2,3) have "r < 3" "c < 3"
    by (auto dest!: py_index_lt)
  with placed assms show ?thesis
    by (simp add: outcome_ok_placed)
qed

lemma outcome_ok_ai_move:
  "count_ok s \<Longrightarrow> outcome_ok s \<Longrightarrow> outcome_ok (snd (ai_move s coin pick))"
  by (auto simp: ai_move_def ai_move_medium_def ai_move_easy_def ai_move_hard_def Let_def
        minimax_ab(1) dropped_def outcome_ok_make_move split: result.splits option.splits)

lemma reachable_outcome_ok: "reachable s \<Longrightarrow> outcome_ok s"
proof (induction rule: reachable.induct)
  case fresh
  show ?case by (simp add: outcome_ok_def init_def empty_board_eq check_win_3x3)
next
  case (configure s e d)
  then show ?case by (auto simp: outcome_ok_def split: option.splits if_splits)
next
  case (place s row col)
  then show ?case by (simp add: outcome_ok_make_move reachable_count_ok)
next
  case (reset s)
  show ?case by (simp add: outcome_ok_def reset_game_def empty_board_eq check_win_3x3)
next
  case (computer s coin pick)
  then show ?case by (simp add: outcome_ok_ai_move reachable_count_ok)
qed

text \<open>
  Claim C7: in every reachable state (so after any sequence of successful moves from
  the fresh state) the outcome is a win of a mark only if that mark has a line on the
  board, and a draw only if no cell is blank and neither mark has a line.
\<close>

theorem reachable_outcome:
  assumes "reachable s"
  shows "(outcome s = Won p \<longrightarrow> check_win_for (board s) p)
       \<and> (outcome s = Drawn \<longrightarrow> get_empty_cells s = [] \<and> \<not> check_win_for (board s) PX
                                \<and> \<not> check_win_for (board s) PO)"
proof -
  from assms have ok: "outcome_ok s" and cnt: "count_ok s"
    by (simp_all add: reachable_outcome_ok reachable_count_ok)
  have "game_over s \<Longrightarrow> winner s = None \<Longrightarrow> get_empty_cells s = []"
    using ok cnt marks_full [of "board s"]
    by (simp add: outcome_ok_def count_ok_def get_empty_cells_def)
  with ok show ?thesis
    by (auto simp: outcome_def outcome_ok_def split: if_splits option.splits)
qed

lemma make_move_3x3:
  "\<not> g \<Longrightarrow> r < 3 \<Longrightarrow> c < 3 \<Longrightarrow> [[a0, a1, a2], [b0, b1, b2], [c0, c1, c2]] ! r ! c = None \<Longrightarrow>
   make_move \<lparr>board = [[a0, a1, a2], [b0, b1, b2], [c0, c1, c2]], current_player = p,
              game_over = g, winner = w, moves_count = n, ai_enabled = e, ai_difficulty = d\<rparr>
     (int r) (int c) =
   (Inr True, placed \<lparr>board = [[a0, a1, a2], [b0, b1, b2], [c0, c1, c2]], current_player = p,
              game_over = g, winner = w, moves_count = n, ai_enabled = e, ai_difficulty = d\<rparr> r c)"
  by (rule make_move_placed) (auto simp: py_index_def lt3)

lemma play_x_wins:
  "play init x_wins =
     \<lparr>board = [[Some PX, Some PX, Some PX], [Some PO, Some PO, None], [None, None, None]],
      current_player = PX, game_over = True, winner = Some PX, moves_count = 5,
      ai_enabled = False, ai_difficulty = ''medium''\<rparr>"
  unfolding x_wins_def init_def empty_board_eq
  by (simp add: play_Cons play_Nil make_move_3x3 [where r = 0 and c = 0, simplified]
      make_move_3x3 [where r = 0 and c = 1, simplified]
      make_move_3x3 [where r = 0 and c = 2, simplified]
      make_move_3x3 [where r = 1 and c = 0, simplified]
      make_move_3x3 [where r = 1 and c = 1, simplified]
      placed_def check_win_def check_win_3x3 set_cell_def other_def)

lemma play_draw_moves: "play init draw_moves = drawn_game"
  unfolding draw_moves_def init_def empty_board_eq drawn_game_def
  by (simp add: play_Cons play_Nil make_move_3x3 [where r = 0 and c = 0, simplified]
      make_move_3x3 [where r = 0 and c = 1, simplified]
      make_move_3x3 [where r = 0 and c = 2, simplified]
      make_move_3x3 [where r = 1 and c = 0, simplified]
      make_move_3x3 [where r = 1 and c = 1, simplified]
      make_move_3x3 [where r = 1 and c = 2, simplified]
      make_move_3x3 [where r = 2 and c = 0, simplified]
      make_move_3x3 [where r = 2 and c = 1, simplified]
      make_move_3x3 [where r = 2 and c = 2, simplified]
      placed_def check_win_def check_win_3x3 set_cell_def other_def)

theorem reachable_outcome_witness:
  "reachable (play init x_wins) \<and> outcome (play init x_wins) = Won PX
   \<and> check_win_for (board (play init x_wins)) PX
   \<and> reachable (play init draw_moves) \<and> outcome (play init draw_moves) = Drawn
   \<and> get_empty_cells (play init draw_moves) = []
   \<and> \<not> check_win_for (board (play init draw_moves)) PX
   \<and> \<not> check_win_for (board (play init draw_moves)) PO"
proof -
  have r1: "reachable (play init x_wins)" and r2: "reachable (play init draw_moves)"
    by (simp_all add: reachable_play reachable.fresh)
  have o1: "outcome (play init x_wins) = Won PX"
    by (simp add: play_x_wins outcome_def)
  have o2: "outcome (play init draw_moves) = Drawn"
    unfolding play_draw_moves by (simp add: outcome_def drawn_game_def init_def)
  show ?thesis
    using reachable_outcome [OF r1, of PX] reachable_outcome [OF r2, of PX] r1 r2 o1 o2
    by simp
qed

section \<open>Pruning does not change the score\<close>

lemma max_loop_step:
  assumes "best \<le> a" "a < b" "fail_soft a b v1 r1"
    and "b \<le> max a (max best r1) \<Longrightarrow> r = max best r1"
    and "\<not> b \<le> max a (max best r1) \<Longrightarrow>
           max best r1 \<le> r \<and> fail_soft (max a (max best r1)) b v' r"
  shows "best \<le> r \<and> fail_soft a b (max v1 v') r"
proof (cases "b \<le> max a (max best r1)")
  case True
  with assms show ?thesis
    unfolding fail_soft_def by (auto simp: max_def split: if_splits)
next
  case False
  with assms show ?thesis
    unfolding fail_soft_def by (auto simp: max_def split: if_splits)
qed

lemma min_loop_step:
  assumes "b \<le> best" "a < b" "fail_soft a b v1 r1"
    and "min b (min best r1) \<le> a \<Longrightarrow> r = min best r1"
    and "\<not> min b (min best r1) \<le> a \<Longrightarrow>
           r \<le> min best r1 \<and> fail_soft a (min b (min best r1)) v' r"
  shows "r \<le> best \<and> fail_soft a b (min v1 v') r"
proof (cases "min b (min best r1) \<le> a")
  case True
  with assms show ?thesis
    unfolding fail_soft_def by (auto simp: min_def split: if_splits)
next
  case False
  with assms show ?thesis
    unfolding fail_soft_def by (auto simp: min_def split: if_splits)
qed

lemma if_less_max: "(if (best::score) < sc then sc else best) = max best sc"
  by (auto simp: max_def)

lemma if_less_min: "(if (sc::score) < best then sc else best) = min best sc"
  by (auto simp: min_def)

lemma ab_max_Cons:
  "ab_max diff b n d (cell # cells) best bm alpha beta =
     (let b1 = set_cell b (fst cell) (snd cell) (Some PO);
          w1 = (if check_win_for b1 PO then Some PO else None);
          sc = score_of (ab diff b1 (n + 1) w1 (d + 1) False alpha beta)
      in if beta \<le> max alpha (max best sc)
         then (max best sc, if best < sc then Some cell else bm)
         else ab_max diff b n d cells (max best sc) (if best < sc then Some cell else bm)
                (max alpha (max best sc)) beta)"
  by (subst ab_max.simps) (simp only: Let_def if_less_max)

lemma ab_min_Cons:
  "ab_min diff b n d (cell # cells) best bm alpha beta =
     (let b1 = set_cell b (fst cell) (snd cell) (Some PX);
          w1 = (if check_win_for b1 PX then Some PX else None);
          sc = score_of (ab diff b1 (n + 1) w1 (d + 1) True alpha beta)
      in if min beta (min best sc) \<le> alpha
         then (min best sc, if sc < best then Some cell else bm)
         else ab_min diff b n d cells (min best sc) (if sc < best then Some cell else bm)
                alpha (min beta (min best sc)))"
  by (subst ab_min.simps) (simp only: Let_def if_less_min)

lemma le_PosInf: "x \<le> PosInf"
  by (cases x) simp_all

lemma fail_soft_refl: "fail_soft a b v v"
  by (simp add: fail_soft_def)

lemma ab_fail_soft:
  "alpha < beta \<Longrightarrow>
     fail_soft alpha beta (plain_minimax diff b n w d m) (score_of (ab diff b n w d m alpha beta))"
  and "best \<le> alpha \<Longrightarrow> alpha < beta \<Longrightarrow>
     best \<le> fst (ab_max diff b n d cells best bm alpha beta)
     \<and> fail_soft alpha beta (plain_max diff b n d cells)
          (fst (ab_max diff b n d cells best bm alpha beta))"
  and "beta \<le> best \<Longrightarrow> alpha < beta \<Longrightarrow>
     fst (ab_min diff b n d cells best bm alpha beta) \<le> best
     \<and> fail_soft alpha beta (plain_min diff b n d cells)
          (fst (ab_min diff b n d cells best bm alpha beta))"
proof (induction diff b n w d m alpha beta and diff b n d cells best bm alpha beta
         and diff b n d cells best bm alpha beta rule: ab_ab_max_ab_min.induct)
  case (1 diff b n w d is_max alpha beta)
  show ?case
  proof (cases "w = Some PO \<or> w = Some PX \<or> n = 9 \<or> max_depth diff \<le> d")
    case True
    then show ?thesis
      by (auto simp: ab.simps [of diff b] plain_minimax.simps [of diff b] fail_soft_refl)
  next
    case False
    show ?thesis
    proof (cases is_max)
      case True
      have "fail_soft alpha beta (plain_max diff b n d (empty_cells b))
              (fst (ab_max diff b n d (empty_cells b) NegInf None alpha beta))"
        using "1.IH"(1) False True "1.prems" by simp
      with False True show ?thesis
        by (simp add: ab.simps [of diff b] plain_minimax.simps [of diff b] Let_def)
    next
      case m: False
      have "fail_soft alpha beta (plain_min diff b n d (empty_cells b))
              (fst (ab_min diff b n d (empty_cells b) PosInf None alpha beta))"
        using "1.IH"(2) False m "1.prems" by (simp add: le_PosInf)
      with False m show ?thesis
        by (simp add: ab.simps [of diff b] plain_minimax.simps [of diff b] Let_def)
    qed
  qed
next
  case (2 diff b n d best bm alpha beta)
  then show ?case
    by (auto simp: ab_max.simps fail_soft_def)
next
  case (3 diff b n d cell cells best bm alpha beta)
  define b1 where "b1 = set_cell b (fst cell) (snd cell) (Some PO)"
  define w1 where "w1 = (if check_win_for b1 PO then Some PO else None)"
  define sc where "sc = score_of (ab diff b1 (n + 1) w1 (d + 1) False alpha beta)"
  define v1 where "v1 = plain_minimax diff b1 (n + 1) w1 (d + 1) False"
  let ?r = "fst (ab_max diff b n d (cell # cells) best bm alpha beta)"
  have child: "fail_soft alpha beta v1 sc"
    using "3.IH"(1) [OF b1_def w1_def] "3.prems" by (simp add: sc_def v1_def)
  have brk: "beta \<le> max alpha (max best sc) \<Longrightarrow> ?r = max best sc"
    by (simp add: ab_max_Cons Let_def b1_def w1_def sc_def)
  have rest: "\<not> beta \<le> max alpha (max best sc) \<Longrightarrow>
      max best sc \<le> ?r \<and> fail_soft (max alpha (max best sc)) beta (plain_max diff b n d cells) ?r"
  proof -
    assume nb: "\<not> beta \<le> max alpha (max best sc)"
    then have eq: "ab_max diff b n d (cell # cells) best bm alpha beta =
        ab_max diff b n d cells (max best sc) (if best < sc then Some cell else bm)
          (max alpha (max best sc)) beta"
      by (simp add: ab_max_Cons Let_def b1_def w1_def sc_def)
    have nb': "\<not> beta \<le> max alpha (if best < sc then sc else best)"
      using nb by (simp add: if_less_max)
    have ih: "max best sc \<le> max alpha (max best sc) \<Longrightarrow> max alpha (max best sc) < beta \<Longrightarrow>
        max best sc \<le> fst (ab_max diff b n d cells (max best sc)
                             (if best < sc then Some cell else bm) (max alpha (max best sc)) beta)
        \<and> fail_soft (max alpha (max best sc)) beta (plain_max diff b n d cells)
            (fst (ab_max diff b n d cells (max best sc)
                    (if best < sc then Some cell else bm) (max alpha (max best sc)) beta))"
      using "3.IH"(2) [OF b1_def w1_def sc_def refl refl refl nb'] by (simp only: if_less_max)
    have "max alpha (max best sc) < beta" using nb by (simp only: not_le)
    from ih [OF max.cobounded2 this] show ?thesis
      unfolding eq .
  qed
  have "plain_max diff b n d (cell # cells) = max v1 (plain_max diff b n d cells)"
    by (simp add: Let_def v1_def w1_def b1_def)
  with max_loop_step [OF "3.prems" child brk rest] show ?case by simp
next
  case (4 diff b n d best bm alpha beta)
  then show ?case
    by (auto simp: ab_min.simps fail_soft_def le_PosInf)
next
  case (5 diff b n d cell cells best bm alpha beta)
  define b1 where "b1 = set_cell b (fst cell) (snd cell) (Some PX)"
  define w1 where "w1 = (if check_win_for b1 PX then Some PX else None)"
  define sc where "sc = score_of (ab diff b1 (n + 1) w1 (d + 1) True alpha beta)"
  define v1 where "v1 = plain_minimax diff b1 (n + 1) w1 (d + 1) True"
  let ?r = "fst (ab_min diff b n d (cell # cells) best bm alpha beta)"
  have child: "fail_soft alpha beta v1 sc"
    using "5.IH"(1) [OF b1_def w1_def] "5.prems" by (simp add: sc_def v1_def)
  have brk: "min beta (min best sc) \<le> alpha \<Longrightarrow> ?r = min best sc"
    by (simp add: ab_min_Cons Let_def b1_def w1_def sc_def)
  have rest: "\<not> min beta (min best sc) \<le> alpha \<Longrightarrow>
      ?r \<le> min best sc \<and> fail_soft alpha (min beta (min best sc)) (plain_min diff b n d cells) ?r"
  proof -
    assume nb: "\<not> min beta (min best sc) \<le> alpha"
    then have eq: "ab_min diff b n d (cell # cells) best bm alpha beta =
        ab_min diff b n d cells (min best sc) (if sc < best then Some cell else bm)
          alpha (min beta (min best sc))"
      by (simp add: ab_min_Cons Let_def b1_def w1_def sc_def)
    have nb': "\<not> min beta (if sc < best then sc else best) \<le> alpha"
      using nb by (simp add: if_less_min)
    have ih: "min beta (min best sc) \<le> min best sc \<Longrightarrow> alpha < min beta (min best sc) \<Longrightarrow>
        fst (ab_min diff b n d cells (min best sc)
               (if sc < best then Some cell else bm) alpha (min beta (min best sc))) \<le> min best sc
        \<and> fail_soft alpha (min beta (min best sc)) (plain_min diff b n d cells)
            (fst (ab_min diff b n d cells (min best sc)
                    (if sc < best then Some cell else bm) alpha (min beta (min best sc))))"
      using "5.IH"(2) [OF b1_def w1_def sc_def refl refl refl nb'] by (simp only: if_less_min)
    have "alpha < min beta (min best sc)" using nb by (simp only: not_le)
    from ih [OF min.cobounded2 this] show ?thesis
      unfolding eq .
  qed
  have "plain_min diff b n d (cell # cells) = min v1 (plain_min diff b n d cells)"
    by (simp add: Let_def v1_def w1_def b1_def)
  with min_loop_step [OF "5.prems" child brk rest] show ?case by simp
qed

lemma fail_soft_full: "fail_soft NegInf PosInf v r \<Longrightarrow> r = v"
  by (cases r; cases v) (auto simp: fail_soft_def less_score_def)

lemma NegInf_less_PosInf: "NegInf < PosInf"
  by (simp add: less_score_def)

lemma ab_full_window:
  "score_of (ab diff b n w d m NegInf PosInf) = plain_minimax diff b n w d m"
  using ab_fail_soft(1) [OF NegInf_less_PosInf] by (rule fail_soft_full)

text \<open>
  Claim C9: for every state and depth limit, the score that the search with
  alpha-beta pruning returns at the root (bounds \<^verbatim>\<open>-inf\<close> and \<^verbatim>\<open>inf\<close>) is the score of
  the minimax without pruning on the same board, move count, winner flag, depth limit
  and cell order.  The search is a function of the state and its arguments, and since
  it leaves the state as it found it, a second run on the object returns what the
  first run returned.
\<close>

theorem pruning_keeps_root_score:
  "score_of (fst (minimax s depth is_maximizing NegInf PosInf)) =
     plain_minimax (ai_difficulty s) (board s) (moves_count s) (winner s) depth is_maximizing
   \<and> minimax (snd (minimax s depth is_maximizing alpha beta)) depth is_maximizing alpha beta =
     minimax s depth is_maximizing alpha beta"
  by (simp add: minimax_ab(1) ab_full_window)

lemma ab_max_move:
  "best \<le> alpha \<Longrightarrow> alpha < beta \<Longrightarrow>
     move_ok diff b n d cells best bm alpha (ab_max diff b n d cells best bm alpha beta)"
proof (induction cells arbitrary: best bm alpha)
  case Nil
  then show ?case by (simp add: ab_max.simps move_ok_def)
next
  case (Cons cell cells)
  define b1 where "b1 = set_cell b (fst cell) (snd cell) (Some PO)"
  define w1 where "w1 = (if check_win_for b1 PO then Some PO else None)"
  define sc where "sc = score_of (ab diff b1 (n + 1) w1 (d + 1) False alpha beta)"
  define bm1 where "bm1 = (if best < sc then Some cell else bm)"
  have child: "fail_soft alpha beta (o_child diff b n d cell) sc"
    using ab_fail_soft(1) [OF Cons.prems(2)]
    by (simp add: sc_def o_child_def Let_def b1_def w1_def)
  have here: "move_ok diff b n d (cell # cells) best bm alpha (max best sc, bm1)"
    using child Cons.prems
    by (auto simp: move_ok_def bm1_def fail_soft_def max_def)
  show ?case
  proof (cases "beta \<le> max alpha (max best sc)")
    case True
    then have "ab_max diff b n d (cell # cells) best bm alpha beta = (max best sc, bm1)"
      by (simp add: ab_max_Cons Let_def b1_def w1_def sc_def bm1_def)
    with here show ?thesis by simp
  next
    case False
    then have eq: "ab_max diff b n d (cell # cells) best bm alpha beta =
        ab_max diff b n d cells (max best sc) bm1 (max alpha (max best sc)) beta"
      by (simp add: ab_max_Cons Let_def b1_def w1_def sc_def bm1_def)
    from False have lt: "max alpha (max best sc) < beta" by (simp only: not_le)
    have rest: "move_ok diff b n d cells (max best sc) bm1 (max alpha (max best sc))
                  (ab_max diff b n d cells (max best sc) bm1 (max alpha (max best sc)) beta)"
      by (rule Cons.IH [OF max.cobounded2 lt])
    show ?thesis
      unfolding eq using rest here Cons.prems
      by (auto simp: move_ok_def max_def split: if_splits)
  qed
qed

section \<open>The Hard computer does not lose\<close>

lemma strategy_ok: "follows_X o_strategy 9 empty_board (empty_cells empty_board)"
  by code_simp

lemma mem_empty_cells: "(r, c) \<in> set (empty_cells b) \<longleftrightarrow> r < 3 \<and> c < 3 \<and> b ! r ! c = None"
  by (auto simp: empty_cells_def split: if_splits)

lemma osafe_won_O: "osafe k b (Some PO) m"
  by (cases k) simp_all

lemma osafe_won_X: "\<not> osafe k b (Some PX) m"
  by (cases k) simp_all

lemma osafe_min:
  "osafe (Suc k) b None False =
     list_all (\<lambda>cell. let b1 = set_cell b (fst cell) (snd cell) (Some PX)
                       in osafe k b1 (if check_win_for b1 PX then Some PX else None) True)
              (empty_cells b)"
  by simp

lemma osafe_max:
  "osafe (Suc k) b None True =
     list_ex (\<lambda>cell. let b1 = set_cell b (fst cell) (snd cell) (Some PO)
                      in osafe k b1 (if check_win_for b1 PO then Some PO else None) False)
             (empty_cells b)"
  by simp

lemma follows_sound:
  "follows_O st k b \<Longrightarrow> osafe k b None True"
  "follows_X sts k b cells \<Longrightarrow>
     list_all (\<lambda>cell. let b1 = set_cell b (fst cell) (snd cell) (Some PX)
                       in osafe (k - 1) b1 (if check_win_for b1 PX then Some PX else None) True)
              cells"
proof (induction st k b and sts k b cells rule: follows_O_follows_X.induct)
  case (3 r c subs k b)
  define b1 where "b1 = set_cell b r c (Some PO)"
  from "3.prems" have cell: "(r, c) \<in> set (empty_cells b)"
    by (simp add: mem_empty_cells)
  have "osafe k b1 (if check_win_for b1 PO then Some PO else None) False"
  proof (cases "check_win_for b1 PO")
    case True
    then show ?thesis by (simp add: osafe_won_O)
  next
    case False
    show ?thesis
    proof (cases k)
      case 0
      with False show ?thesis by simp
    next
      case (Suc k')
      with False "3.prems" have "follows_X subs k b1 (empty_cells b1)"
        by (simp add: b1_def Let_def)
      from "3.IH" [OF b1_def this] Suc False show ?thesis
        by simp
    qed
  qed
  with cell show ?case
    unfolding osafe_max list_ex_iff
    by (intro bexI [of _ "(r, c)"]) (simp_all add: b1_def Let_def)
next
  case (7 st sts k b cell cells)
  define b1 where "b1 = set_cell b (fst cell) (snd cell) (Some PX)"
  from "7.prems" have nowin: "\<not> check_win_for b1 PX" and sub: "k = 0 \<or> follows_O st k b1"
    and rest: "follows_X sts (Suc k) b cells"
    by (simp_all add: b1_def Let_def)
  have "osafe k b1 None True"
  proof (cases "k = 0")
    case True
    then show ?thesis by simp
  next
    case False
    with sub "7.IH"(1) [OF b1_def] show ?thesis by simp
  qed
  with nowin "7.IH"(2) [OF rest] show ?case
    by (simp add: b1_def Let_def)
qed simp_all

lemma osafe_start: "osafe 9 empty_board None False"
proof -
  have nine: "(9::nat) = Suc 8" by simp
  have "list_all (\<lambda>cell. let b1 = set_cell empty_board (fst cell) (snd cell) (Some PX)
                      in osafe (Suc 8 - 1) b1 (if check_win_for b1 PX then Some PX else None) True)
              (empty_cells empty_board)"
    by (rule follows_sound(2) [OF strategy_ok [unfolded nine]])
  then show ?thesis
    unfolding nine osafe_min by (simp only: diff_Suc_1)
qed

lemma plain_max_nonneg:
  "Fin 0 \<le> plain_max diff b n d cells \<longleftrightarrow>
     list_ex (\<lambda>cell. Fin 0 \<le> o_child diff b n d cell) cells"
  by (induction cells) (simp_all add: o_child_def Let_def le_max_iff_disj)

lemma plain_min_nonneg:
  "Fin 0 \<le> plain_min diff b n d cells \<longleftrightarrow>
     list_all (\<lambda>cell. Fin 0 \<le> x_child diff b n d cell) cells"
  by (induction cells) (simp_all add: x_child_def Let_def le_PosInf)

lemma max_depth_hard: "max_depth ''hard'' = 9"
  by (simp add: max_depth_def)

lemma nonneg_osafe:
  "int k = 9 - n \<Longrightarrow> 0 \<le> d \<Longrightarrow> d \<le> n \<Longrightarrow>
     Fin 0 \<le> plain_minimax ''hard'' b n w d m \<longleftrightarrow> osafe k b w m"
proof (induction k arbitrary: b n w d m)
  case 0
  then have "n = 9" by simp
  with 0 show ?case
    by (cases w rule: option.exhaust [case_names None Some])
       (auto simp: plain_minimax.simps [of "''hard''" b] split: player.splits)
next
  case (Suc k)
  then have n: "n \<noteq> 9" "\<not> max_depth ''hard'' \<le> d" "int k = 9 - (n + 1)" "0 \<le> d + 1" "d + 1 \<le> n + 1"
    by (simp_all add: max_depth_hard)
  show ?case
  proof (cases w)
    case (Some p)
    then show ?thesis
      using Suc.prems by (cases p) (simp_all add: plain_minimax.simps [of "''hard''" b])
  next
    case None
    show ?thesis
    proof (cases m)
      case True
      have "list_ex (\<lambda>cell. Fin 0 \<le> o_child ''hard'' b n d cell) (empty_cells b) \<longleftrightarrow>
            list_ex (\<lambda>cell. let b1 = set_cell b (fst cell) (snd cell) (Some PO)
                     in osafe k b1 (if check_win_for b1 PO then Some PO else None) False)
              (empty_cells b)"
        by (rule list_ex_cong [OF refl]) (simp add: o_child_def Let_def Suc.IH [OF n(3,4,5)])
      with None True n(1,2) show ?thesis
        by (simp add: plain_minimax.simps [of "''hard''" b] plain_max_nonneg osafe_max)
    next
      case False
      have "list_all (\<lambda>cell. Fin 0 \<le> x_child ''hard'' b n d cell) (empty_cells b) \<longleftrightarrow>
            list_all (\<lambda>cell. let b1 = set_cell b (fst cell) (snd cell) (Some PX)
                     in osafe k b1 (if check_win_for b1 PX then Some PX else None) True)
              (empty_cells b)"
        by (rule list_all_cong [OF refl]) (simp add: x_child_def Let_def Suc.IH [OF n(3,4,5)])
      with None False n(1,2) show ?thesis
        by (simp add: plain_minimax.simps [of "''hard''" b] plain_min_nonneg osafe_min)
    qed
  qed
qed

lemma hard_ok_start: "hard_ok hard_start"
  using osafe_start
  by (simp add: hard_ok_def hard_start_def init_def empty_board_eq [symmetric])
     (simp add: empty_board_eq wf_board_def)

lemma hard_ok_placed:
  assumes ok: "hard_ok s" and run: "\<not> game_over s"
    and safe: "osafe (nat (8 - moves_count s)) (set_cell (board s) r c (Some (current_player s)))
                 (if check_win_for (set_cell (board s) r c (Some (current_player s)))
                       (current_player s)
                  then Some (current_player s) else None)
                 (current_player s = PX)"
  shows "hard_ok (placed s r c)"
proof -
  let ?p = "current_player s"
  let ?b = "set_cell (board s) r c (Some ?p)"
  from ok run have s: "wf_board (board s)" "ai_difficulty s = ''hard''" "0 \<le> moves_count s"
    "winner s = None" "moves_count s < 9"
    by (simp_all add: hard_ok_def)
  have k: "nat (9 - (moves_count s + 1)) = nat (8 - moves_count s)" by simp
  show ?thesis
  proof (cases "check_win_for ?b ?p")
    case True
    with safe have "?p = PO"
      by (cases ?p) (simp_all add: osafe_won_X)
    with True s show ?thesis
      by (simp add: hard_ok_def placed_def Let_def check_win_def wf_board_set_cell)
  next
    case False
    with safe have "osafe (nat (8 - moves_count s)) ?b None (?p = PX)" by simp
    moreover have "(other ?p = PO) = (?p = PX)" by (cases ?p) (simp_all add: other_def)
    ultimately show ?thesis
      using False s
      by (simp add: hard_ok_def placed_def Let_def check_win_def wf_board_set_cell k)
  qed
qed

lemma hard_ok_human:
  assumes ok: "hard_ok s" and turn: "current_player s = PX"
    and move: "make_move s row col = (Inr True, s')"
  shows "hard_ok s'"
proof (cases rule: make_move_cases [of s row col])
  case unchanged
  with move show ?thesis by simp
next
  case (placed r c)
  from ok placed(1) have s: "wf_board (board s)" "0 \<le> moves_count s" "moves_count s < 9"
    and safe: "osafe (nat (9 - moves_count s)) (board s) None False"
    using turn by (simp_all add: hard_ok_def)
  from s(1) have "length (board s) = 3" "\<And>r. r < 3 \<Longrightarrow> length (board s ! r) = 3"
    by (auto simp: lt3 dest: wf_board_lengths)
  with placed(2,3) have "r < 3" "c < 3"
    by (auto dest!: py_index_lt)
  with placed(4) have cell: "(r, c) \<in> set (empty_cells (board s))"
    by (simp add: mem_empty_cells)
  from s(2,3) have "nat (9 - moves_count s) = Suc (nat (8 - moves_count s))" by simp
  with safe have "list_all (\<lambda>cell. let b1 = set_cell (board s) (fst cell) (snd cell) (Some PX)
                     in osafe (nat (8 - moves_count s)) b1
                          (if check_win_for b1 PX then Some PX else None) True)
                   (empty_cells (board s))"
    by (simp only: osafe_min)
  with cell have "osafe (nat (8 - moves_count s)) (set_cell (board s) r c (Some PX))
                    (if check_win_for (set_cell (board s) r c (Some PX)) PX then Some PX else None)
                    True"
    by (auto simp: list_all_iff Let_def)
  then have "hard_ok (placed s r c)"
    using hard_ok_placed [OF ok placed(1), of r c, unfolded turn] by simp
  with placed(5) move show ?thesis by simp
qed

lemma hard_ok_computer:
  assumes ok: "hard_ok s" and run: "\<not> game_over s" and turn: "current_player s = PO"
  shows "hard_ok (snd (ai_move s coin pick))"
proof -
  let ?b = "board s" and ?n = "moves_count s"
  from ok run turn have s: "wf_board ?b" "ai_difficulty s = ''hard''" "0 \<le> ?n" "winner s = None"
    "?n < 9" and safe: "osafe (nat (9 - ?n)) ?b None True"
    by (simp_all add: hard_ok_def)
  define res where "res = ab_max ''hard'' ?b ?n 0 (empty_cells ?b) NegInf None NegInf PosInf"
  have search: "minimax s 0 True NegInf PosInf = (Best (fst res) (snd res), s)"
    using s by (simp add: minimax_ab(1) ab.simps [of "''hard''" ?b] max_depth_hard res_def Let_def)
  have "Fin 0 \<le> plain_minimax ''hard'' ?b ?n None 0 True"
    using safe s by (simp add: nonneg_osafe [of "nat (9 - ?n)" ?n 0])
  also have "plain_minimax ''hard'' ?b ?n None 0 True
               = score_of (ab ''hard'' ?b ?n None 0 True NegInf PosInf)"
    by (simp add: ab_full_window)
  also have "\<dots> = fst res"
    using s by (simp add: ab.simps [of "''hard''" ?b] max_depth_hard res_def Let_def)
  finally have pos: "Fin 0 \<le> fst res" .
  then have above: "NegInf < fst res"
    by (cases "fst res") (simp_all add: less_score_def)
  have "move_ok ''hard'' ?b ?n 0 (empty_cells ?b) NegInf None NegInf res"
    unfolding res_def by (rule ab_max_move [OF order_refl NegInf_less_PosInf])
  with above obtain cell where cell: "cell \<in> set (empty_cells ?b)" "snd res = Some cell"
    and val: "fst res \<le> o_child ''hard'' ?b ?n 0 cell"
    by (auto simp: move_ok_def)
  obtain r c where rc: "cell = (r, c)" by (cases cell)
  from cell(1) have pos_rc: "r < 3" "c < 3" "?b ! r ! c = None"
    by (simp_all add: rc mem_empty_cells)
  from s(1) pos_rc have len: "length ?b = 3" "length (?b ! r) = 3"
    by (auto simp: lt3 dest: wf_board_lengths)
  have moved: "make_move s (int r) (int c) = (Inr True, placed s r c)"
    using run pos_rc len by (intro make_move_placed) (simp_all add: py_index_3)
  have "ai_move s coin pick = ai_move_hard s"
    using s(2) by (simp add: ai_move_def)
  then have result: "snd (ai_move s coin pick) = placed s r c"
    by (simp add: ai_move_hard_def search cell(2) rc moved dropped_def)
  let ?b1 = "set_cell ?b r c (Some PO)"
  from pos val have "Fin 0 \<le> o_child ''hard'' ?b ?n 0 cell" by (rule order_trans)
  then have "Fin 0 \<le> plain_minimax ''hard'' ?b1 (?n + 1)
                       (if check_win_for ?b1 PO then Some PO else None) 1 False"
    by (simp add: o_child_def rc Let_def)
  then have "osafe (nat (8 - ?n)) ?b1 (if check_win_for ?b1 PO then Some PO else None) False"
    using s by (simp add: nonneg_osafe [of "nat (8 - ?n)" "?n + 1" 1])
  then have "hard_ok (placed s r c)"
    using hard_ok_placed [OF ok run, of r c, unfolded turn] by simp
  with result show ?thesis by simp
qed

lemma hard_game_ok: "hard_game s \<Longrightarrow> hard_ok s"
proof (induction rule: hard_game.induct)
  case start
  show ?case by (rule hard_ok_start)
next
  case (human s row col s')
  then show ?case by (simp add: hard_ok_human)
next
  case (computer s coin pick)
  then show ?case by (simp add: hard_ok_computer)
qed

text \<open>
  Claim C3: in a game at the Hard tier that starts from the empty board, whatever
  legal moves the opponent X makes between the computer's moves, X is never the
  winner: the outcome is in progress, a win of the computer's mark O, or a draw.
\<close>

theorem hard_never_loses:
  assumes "hard_game s"
  shows "winner s \<noteq> Some PX
       \<and> (outcome s = InProgress \<or> outcome s = Won PO \<or> outcome s = Drawn)"
proof -
  from assms have "hard_ok s" by (rule hard_game_ok)
  then have w: "winner s \<noteq> Some PX"
    by (auto simp: hard_ok_def split: if_splits)
  then have "outcome s = InProgress \<or> outcome s = Won PO \<or> outcome s = Drawn"
    by (cases "winner s"; simp add: outcome_def) (metis player.exhaust)
  with w show ?thesis by simp
qed

lemma make_move_hard_start_center:
  "make_move hard_start 1 1 =
     (Inr True, hard_start\<lparr>board := [[None, None, None], [None, Some PX, None],
                                        [None, None, None]],
                            moves_count := 1, current_player := PO\<rparr>)"
  by (simp add: make_move_def hard_start_def init_def empty_board_eq py_index_def set_cell_def
        check_win_def check_win_3x3 other_def)

theorem hard_never_loses_witness:
  "hard_game (snd (ai_move (snd (make_move hard_start 1 1)) True 0))
   \<and> winner (snd (ai_move (snd (make_move hard_start 1 1)) True 0)) \<noteq> Some PX
   \<and> (outcome (snd (ai_move (snd (make_move hard_start 1 1)) True 0)) = InProgress
      \<or> outcome (snd (ai_move (snd (make_move hard_start 1 1)) True 0)) = Won PO
      \<or> outcome (snd (ai_move (snd (make_move hard_start 1 1)) True 0)) = Drawn)"
proof -
  let ?s1 = "snd (make_move hard_start 1 1)"
  have turn: "current_player hard_start = PX"
    by (simp add: hard_start_def init_def)
  have move: "make_move hard_start 1 1 = (Inr True, ?s1)"
    unfolding make_move_hard_start_center by simp
  have g1: "hard_game ?s1"
    by (rule hard_game.human [OF hard_game.start turn move])
  have "\<not> game_over ?s1" "current_player ?s1 = PO"
    unfolding make_move_hard_start_center by (simp_all add: hard_start_def init_def)
  with g1 have g: "hard_game (snd (ai_move ?s1 True 0))"
    by (rule hard_game.computer)
  from hard_never_loses [OF g] g show ?thesis by simp
qed

end
